theory Spec2Isabelle
  imports Main "HOL-Library.Word"
begin

unbundle bit_operations_syntax

section \<open>Data model of the staker ledger\<close>

text \<open>
  The development covers two files of package \<open>state\<close> of the platform VM: the staker
  record with its ordering and lifecycle functions, and the binary codec of validator
  weight diffs.

  Byte strings are lists of 8-bit words. \<open>ids.ID\<close> is a 32-byte array; it is a byte list
  here and the length is a premise wherever a function relies on it.
\<close>

type_synonym byte = "8 word"
type_synonym uint64 = "64 word"
type_synonym ID = "byte list"

text \<open>
  Modelled from the spec: \<open>ids.NodeID\<close> with its conversions \<open>Bytes\<close> and
  \<open>NodeIDFromBytes\<close> is not among the sources. The layout table of the spec stores a node
  identity as its raw identifier bytes, and the codec sizes the key with \<open>len(nodeID)\<close>,
  so a node identity is its byte sequence and both conversions copy it verbatim.
\<close>

type_synonym NodeID = "byte list"

definition NodeID_Bytes :: "NodeID \<Rightarrow> byte list" where
  "NodeID_Bytes nodeID = nodeID"

definition NodeIDFromBytes :: "byte list \<Rightarrow> NodeID" where
  "NodeIDFromBytes src = src"

text \<open>
  Modelled from the spec: \<open>txs.Priority\<close> is not among the sources. The spec calls it a
  small enumerated tag, and \<open>Less\<close> compares two of them with \<open><\<close>; it is a byte here.
  Its predicates \<open>IsPending\<close> and \<open>IsValidator\<close> are parameters of the functions that
  call them.
\<close>

type_synonym Priority = byte

text \<open>
  \<open>bls.PublicKey\<close> is opaque to this package: a staker holds a pointer to one or nil.
\<close>

type_synonym PublicKey = "byte list"

text \<open>
  \<open>time.Time\<close> and \<open>time.Duration\<close> of Go's standard library, with the methods
  \<open>Before\<close>, \<open>Equal\<close>, \<open>Add\<close> (and its helper \<open>addSec\<close>) and \<open>Sub\<close> that the staker
  code calls; the definitions follow the code of the library. A \<open>Time\<close> that carries no
  monotonic clock reading (the times of stakers come from transactions and from the chain
  clock, built by \<open>time.Unix\<close>) is a signed 64-bit count of seconds \<open>sec\<close> since
  January 1, year 1, and a count of nanoseconds \<open>nsec\<close> within that second, from 0 to
  999999999. A \<open>Duration\<close> is a signed 64-bit count of nanoseconds. Both counts are
  integers here; \<open>wf_Time\<close> and \<open>wf_Duration\<close> state the ranges that the Go types impose,
  and the arithmetic of the library is written out with its 64-bit wrap-around.
\<close>

datatype Time = Time (sec: int) (nsec: int)

type_synonym Duration = int

definition wf_Time :: "Time \<Rightarrow> bool" where
  "wf_Time t \<longleftrightarrow>
     - (2 ^ 63) \<le> sec t \<and> sec t \<le> 2 ^ 63 - 1 \<and> 0 \<le> nsec t \<and> nsec t < 1000000000"

definition wf_Duration :: "Duration \<Rightarrow> bool" where
  "wf_Duration d \<longleftrightarrow> - (2 ^ 63) \<le> d \<and> d \<le> 2 ^ 63 - 1"

definition minDuration :: Duration where
  "minDuration = - (2 ^ 63)"

definition maxDuration :: Duration where
  "maxDuration = 2 ^ 63 - 1"

definition Second :: Duration where
  "Second = 1000000000"

text \<open>
  The result of a 64-bit signed operation whose mathematical value is \<open>x\<close>, and Go's
  quotient and remainder on integers, which truncate towards zero.
\<close>

definition wrap64 :: "int \<Rightarrow> int" where
  "wrap64 x = (x + 2 ^ 63) mod 2 ^ 64 - 2 ^ 63"

definition quo :: "int \<Rightarrow> int \<Rightarrow> int" where
  "quo a b = sgn a * sgn b * (\<bar>a\<bar> div \<bar>b\<bar>)"

definition rem :: "int \<Rightarrow> int \<Rightarrow> int" where
  "rem a b = a - b * quo a b"

text \<open>
  \<open>Before\<close> and \<open>Equal\<close> compare the seconds and then the nanoseconds.
\<close>

definition Before :: "Time \<Rightarrow> Time \<Rightarrow> bool" where
  "Before t u \<longleftrightarrow> sec t < sec u \<or> (sec t = sec u \<and> nsec t < nsec u)"

definition Equal :: "Time \<Rightarrow> Time \<Rightarrow> bool" where
  "Equal t u \<longleftrightarrow> sec t = sec u \<and> nsec t = nsec u"

text \<open>
  \<open>addSec\<close> adds to the second counter and, when the 64-bit sum overflows, leaves the
  counter at \<open>2^63 - 1\<close> or at \<open>-(2^63 - 1)\<close>. \<open>Add\<close> splits the duration into whole seconds
  and nanoseconds, carries the nanoseconds into the range of \<open>nsec\<close> and calls \<open>addSec\<close>,
  so it saturates at the ends of the second counter instead of wrapping around.
\<close>

definition addSec :: "int \<Rightarrow> int \<Rightarrow> int" where
  "addSec ext d =
     (let sum = wrap64 (ext + d) in
      if (sum > ext) = (d > 0) then sum
      else if d > 0 then 2 ^ 63 - 1
      else - (2 ^ 63 - 1))"

definition Add :: "Time \<Rightarrow> Duration \<Rightarrow> Time" where
  "Add t d =
     (let dsec = quo d 1000000000;
          nsec0 = nsec t + rem d 1000000000
      in if nsec0 \<ge> 1000000000 then Time (addSec (sec t) (dsec + 1)) (nsec0 - 1000000000)
         else if nsec0 < 0 then Time (addSec (sec t) (dsec - 1)) (nsec0 + 1000000000)
         else Time (addSec (sec t) dsec) nsec0)"

text \<open>
  \<open>Sub\<close> computes the difference in 64-bit arithmetic, keeps it when adding it back to
  \<open>u\<close> gives \<open>t\<close>, and otherwise returns the smallest or the largest duration.
\<close>

definition Sub :: "Time \<Rightarrow> Time \<Rightarrow> Duration" where
  "Sub t u =
     (let d = wrap64 (wrap64 (wrap64 (sec t - sec u) * Second) + (nsec t - nsec u))
      in if Equal (Add u d) t then d
         else if Before t u then minDuration
         else maxDuration)"

text \<open>
  The position of an instant on the line of nanoseconds, and the positions that a
  \<open>Time\<close> can hold. They are used to state what \<open>Add\<close> and \<open>Sub\<close> compute.
\<close>

definition nanos :: "Time \<Rightarrow> int" where
  "nanos t = sec t * 1000000000 + nsec t"

definition representable :: "int \<Rightarrow> bool" where
  "representable n \<longleftrightarrow> - (2 ^ 63) * 1000000000 \<le> n \<and> n < 2 ^ 63 * 1000000000"

record Staker =
  TxID :: ID
  NodeID :: NodeID
  PublicKey :: "PublicKey option"
  SubnetID :: ID
  Weight :: uint64
  StartTime :: Time
  StakingPeriod :: Duration
  EndTime :: Time
  PotentialReward :: uint64
  NextTime :: Time
  Priority :: Priority

section \<open>Ordering of stakers\<close>

text \<open>
  \<open>bytes.Compare\<close>: the first differing byte decides, compared unsigned; when one
  sequence is a prefix of the other, the shorter one is the smaller.
\<close>

fun bytes_Compare :: "byte list \<Rightarrow> byte list \<Rightarrow> int" where
  "bytes_Compare [] [] = 0"
| "bytes_Compare [] (y # ys) = - 1"
| "bytes_Compare (x # xs) [] = 1"
| "bytes_Compare (x # xs) (y # ys) =
     (if x < y then - 1 else if y < x then 1 else bytes_Compare xs ys)"

definition Less :: "Staker \<Rightarrow> Staker \<Rightarrow> bool" where
  "Less s than =
     (if Before (NextTime s) (NextTime than) then True
      else if Before (NextTime than) (NextTime s) then False
      else if Priority s < Priority than then True
      else if Priority than < Priority s then False
      else bytes_Compare (TxID s) (TxID than) = - 1)"

section \<open>Lifecycle of a staker\<close>

text \<open>
  The interfaces \<open>txs.Staker\<close> and \<open>txs.PreContinuousStakingStaker\<close> are given by
  what their methods return. \<open>PublicKey()\<close> returns a key pointer, a flag and an error
  (\<open>None\<close> is the nil error); the error type is a parameter.
\<close>

record 'e txs_Staker =
  stk_PublicKey :: "PublicKey option \<times> bool \<times> 'e option"
  stk_NodeID :: NodeID
  stk_SubnetID :: ID
  stk_Weight :: uint64
  stk_StakingPeriod :: Duration
  stk_CurrentPriority :: Priority

record 'e PreContinuousStakingStaker =
  pre_PublicKey :: "PublicKey option \<times> bool \<times> 'e option"
  pre_NodeID :: NodeID
  pre_SubnetID :: ID
  pre_Weight :: uint64
  pre_StartTime :: Time
  pre_EndTime :: Time
  pre_PendingPriority :: Priority

text \<open>
  \<open>mockable.MaxTime\<close> is not among the sources; it is the first parameter of
  \<open>NewCurrentStaker\<close>. The result is the error (left) or the new record (right).
\<close>

definition NewCurrentStaker ::
  "Time \<Rightarrow> ID \<Rightarrow> 'e txs_Staker \<Rightarrow> Time \<Rightarrow> uint64 \<Rightarrow> 'e + Staker" where
  "NewCurrentStaker MaxTime txID staker startTime potentialReward =
     (case stk_PublicKey staker of (publicKey, _, err) \<Rightarrow>
        (case err of
           Some e \<Rightarrow> Inl e
         | None \<Rightarrow>
             (let stakingPeriod = stk_StakingPeriod staker in
              Inr \<lparr> TxID = txID,
                    NodeID = stk_NodeID staker,
                    PublicKey = publicKey,
                    SubnetID = stk_SubnetID staker,
                    Weight = stk_Weight staker,
                    StartTime = startTime,
                    StakingPeriod = stakingPeriod,
                    EndTime = MaxTime,
                    PotentialReward = potentialReward,
                    NextTime = Add startTime stakingPeriod,
                    Priority = stk_CurrentPriority staker \<rparr>)))"

text \<open>\<open>NewPendingStaker\<close> leaves \<open>PotentialReward\<close> at its zero value.\<close>

definition NewPendingStaker ::
  "ID \<Rightarrow> 'e PreContinuousStakingStaker \<Rightarrow> 'e + Staker" where
  "NewPendingStaker txID staker =
     (case pre_PublicKey staker of (publicKey, _, err) \<Rightarrow>
        (case err of
           Some e \<Rightarrow> Inl e
         | None \<Rightarrow>
             (let startTime = pre_StartTime staker;
                  duration = Sub (pre_EndTime staker) startTime in
              Inr \<lparr> TxID = txID,
                    NodeID = pre_NodeID staker,
                    PublicKey = publicKey,
                    SubnetID = pre_SubnetID staker,
                    Weight = pre_Weight staker,
                    StartTime = startTime,
                    StakingPeriod = duration,
                    EndTime = pre_EndTime staker,
                    PotentialReward = 0,
                    NextTime = startTime,
                    Priority = pre_PendingPriority staker \<rparr>)))"

text \<open>
  The functions below update the record behind the pointer; the model returns the
  updated record. \<open>IsPending\<close> is the predicate of \<open>txs.Priority\<close>.
\<close>

definition ShiftStakerAheadInPlace :: "(Priority \<Rightarrow> bool) \<Rightarrow> Staker \<Rightarrow> Staker" where
  "ShiftStakerAheadInPlace IsPending s =
     (if IsPending (Priority s) then s
      else if Equal (NextTime s) (EndTime s) then s
      else s \<lparr> StartTime := Add (StartTime s) (StakingPeriod s),
               NextTime := Add (NextTime s) (StakingPeriod s) \<rparr>)"

text \<open>
  \<open>EarliestStopTime\<close> only reads the record. \<open>IsValidator\<close> is the predicate of
  \<open>txs.Priority\<close> and \<open>PrimaryNetworkID\<close> the constant of package \<open>constants\<close>.
\<close>

definition EarliestStopTime :: "(Priority \<Rightarrow> bool) \<Rightarrow> ID \<Rightarrow> Staker \<Rightarrow> Time" where
  "EarliestStopTime IsValidator PrimaryNetworkID s =
     (let candidateStopTime =
            (if IsValidator (Priority s) \<and> SubnetID s = PrimaryNetworkID
             then Add (NextTime s) (StakingPeriod s)
             else NextTime s)
      in if Before candidateStopTime (EndTime s) then candidateStopTime else EndTime s)"

text \<open>
  The loop of \<open>MarkStakerForRemovalInPlaceBeforeTime\<close>:
  \<^verbatim>\<open>for ; end.Before(stopTime); end = end.Add(s.StakingPeriod) {}\<close>.
  Nothing in the source bounds it, so the result is optional and \<open>None\<close> stands for a
  loop that never exits.
\<close>

partial_function (option) walk_end :: "Duration \<Rightarrow> Time \<Rightarrow> Time \<Rightarrow> Time option" where
  [code]: "walk_end stakingPeriod stopTime end =
     (if Before end stopTime then walk_end stakingPeriod stopTime (Add end stakingPeriod)
      else Some end)"

definition MarkStakerForRemovalInPlaceBeforeTime :: "Staker \<Rightarrow> Time \<Rightarrow> Staker option" where
  "MarkStakerForRemovalInPlaceBeforeTime s stopTime =
     (if Before stopTime (EndTime s)
      then (case walk_end (StakingPeriod s) stopTime (NextTime s) of
              None \<Rightarrow> None
            | Some end \<Rightarrow> Some (s \<lparr> EndTime := end \<rparr>))
      else Some s)"

section \<open>Codec of validator weight diffs\<close>

text \<open>
  Modelled from the spec: the constants \<open>ids.IDLen\<close>, \<open>database.Uint64Size\<close>,
  \<open>database.BoolSize\<close> and \<open>database.BoolTrue\<close> are not among the sources; the layout
  tables of the spec give 32, 8 and 1 bytes and the byte \<open>0x01\<close>.
\<close>

definition IDLen :: nat where "IDLen = 32"
definition Uint64Size :: nat where "Uint64Size = 8"
definition BoolSize :: nat where "BoolSize = 1"
definition BoolTrue :: byte where "BoolTrue = 1"

definition startDiffKeyLength :: nat where
  "startDiffKeyLength = IDLen + Uint64Size"

definition diffKeyNodeIDOffset :: nat where
  "diffKeyNodeIDOffset = IDLen + Uint64Size"

definition weightValueLength :: nat where
  "weightValueLength = BoolSize + Uint64Size"

datatype error =
    errUnexpectedZeroLenghtNodeID
  | errUnexpectedWeightValueLength
  | panic_index_out_of_range

record ValidatorWeightDiff =
  Decrease :: bool
  Amount :: uint64

text \<open>
  Go's \<open>copy(dst, src)\<close> overwrites the first \<open>min(len(dst), len(src))\<close> bytes of
  \<open>dst\<close>; the model returns the new contents of \<open>dst\<close>.
\<close>

definition copy_bytes :: "byte list \<Rightarrow> byte list \<Rightarrow> byte list" where
  "copy_bytes dst src = take (length dst) src @ drop (length src) dst"

text \<open>
  \<open>binary.BigEndian.PutUint64(b, v)\<close> writes \<open>byte(v >> 56)\<close>, ..., \<open>byte(v)\<close> to
  \<open>b[0]\<close>, ..., \<open>b[7]\<close> and leaves the rest of \<open>b\<close>. Both callers hand it a buffer they
  allocated with at least 8 bytes from that position on.
\<close>

definition PutUint64 :: "byte list \<Rightarrow> uint64 \<Rightarrow> byte list" where
  "PutUint64 b v =
     [ucast (drop_bit 56 v), ucast (drop_bit 48 v), ucast (drop_bit 40 v),
      ucast (drop_bit 32 v), ucast (drop_bit 24 v), ucast (drop_bit 16 v),
      ucast (drop_bit 8 v), ucast v] @ drop 8 b"

text \<open>
  \<open>binary.BigEndian.Uint64(b)\<close> reads \<open>b[0]\<close>, ..., \<open>b[7]\<close>; on a shorter slice the
  read of \<open>b[7]\<close> panics, which is \<open>None\<close> here.
\<close>

fun Uint64 :: "byte list \<Rightarrow> uint64 option" where
  "Uint64 (b0 # b1 # b2 # b3 # b4 # b5 # b6 # b7 # _) =
     Some (ucast b7 OR push_bit 8 (ucast b6) OR push_bit 16 (ucast b5) OR
           push_bit 24 (ucast b4) OR push_bit 32 (ucast b3) OR push_bit 40 (ucast b2) OR
           push_bit 48 (ucast b1) OR push_bit 56 (ucast b0))"
| "Uint64 _ = None"

text \<open>The height is stored bit-flipped, so that ascending keys are descending heights.\<close>

definition packIterableHeight :: "byte list \<Rightarrow> uint64 \<Rightarrow> byte list" where
  "packIterableHeight key height = PutUint64 key (NOT height)"

definition unpackIterableHeight :: "byte list \<Rightarrow> uint64 option" where
  "unpackIterableHeight key = map_option (\<lambda>v. NOT v) (Uint64 key)"

text \<open>
  A slice \<open>key[i:]\<close> shares the array of \<open>key\<close>: a write through it changes \<open>key\<close> from
  position \<open>i\<close> on.
\<close>

definition marshalStartDiffKey :: "ID \<Rightarrow> uint64 \<Rightarrow> byte list" where
  "marshalStartDiffKey subnetID height =
     (let key0 = replicate startDiffKeyLength 0;
          key1 = copy_bytes key0 subnetID
      in take IDLen key1 @ packIterableHeight (drop IDLen key1) height)"

definition marshalDiffKey :: "ID \<Rightarrow> uint64 \<Rightarrow> NodeID \<Rightarrow> byte list" where
  "marshalDiffKey subnetID height nodeID =
     (let key0 = replicate (startDiffKeyLength + length nodeID) 0;
          key1 = copy_bytes key0 subnetID;
          key2 = take IDLen key1 @ packIterableHeight (drop IDLen key1) height
      in take diffKeyNodeIDOffset key2 @
         copy_bytes (drop diffKeyNodeIDOffset key2) (NodeID_Bytes nodeID))"

definition unmarshalDiffKey :: "byte list \<Rightarrow> error + (ID \<times> uint64 \<times> NodeID)" where
  "unmarshalDiffKey key =
     (if length key < startDiffKeyLength then Inl errUnexpectedZeroLenghtNodeID
      else
        (let subnetID = copy_bytes (replicate IDLen 0) key in
         case unpackIterableHeight (drop IDLen key) of
           None \<Rightarrow> Inl panic_index_out_of_range
         | Some height \<Rightarrow>
             Inr (subnetID, height, NodeIDFromBytes (drop diffKeyNodeIDOffset key))))"

definition marshalWeightDiff :: "ValidatorWeightDiff \<Rightarrow> byte list" where
  "marshalWeightDiff diff =
     (let value0 = replicate weightValueLength 0;
          value1 = (if Decrease diff then value0[0 := BoolTrue] else value0)
      in take BoolSize value1 @ PutUint64 (drop BoolSize value1) (Amount diff))"

definition unmarshalWeightDiff :: "byte list \<Rightarrow> error + ValidatorWeightDiff" where
  "unmarshalWeightDiff value =
     (if length value \<noteq> weightValueLength then Inl errUnexpectedWeightValueLength
      else
        (case Uint64 (drop BoolSize value) of
           None \<Rightarrow> Inl panic_index_out_of_range
         | Some amount \<Rightarrow> Inr \<lparr> Decrease = (value ! 0 = BoolTrue), Amount = amount \<rparr>))"

text \<open>
  The number a byte sequence denotes when read big-endian; it is used to compare encoded
  heights.
\<close>

fun be_nat :: "byte list \<Rightarrow> nat" where
  "be_nat [] = 0"
| "be_nat (b # bs) = unat b * 256 ^ length bs + be_nat bs"

text \<open>The staker whose fields all have their zero value, with identifiers of full length.\<close>

definition zeroStaker :: Staker where
  "zeroStaker = \<lparr> TxID = replicate 32 0, NodeID = replicate 20 0, PublicKey = None,
     SubnetID = replicate 32 0, Weight = 0, StartTime = Time 0 0, StakingPeriod = 0,
     EndTime = Time 0 0, PotentialReward = 0, NextTime = Time 0 0, Priority = 0 \<rparr>"

section \<open>Properties of the ordering\<close>

lemma bytes_Compare_lexordp: "bytes_Compare xs ys = - 1 \<longleftrightarrow> ord_class.lexordp xs ys"
  by (induction xs ys rule: bytes_Compare.induct) auto

lemma bytes_Compare_flip: "bytes_Compare xs ys = 1 \<longleftrightarrow> ord_class.lexordp ys xs"
  by (induction xs ys rule: bytes_Compare.induct) auto

lemma bytes_Compare_eq: "bytes_Compare xs ys = 0 \<longleftrightarrow> xs = ys"
  by (induction xs ys rule: bytes_Compare.induct) auto

lemma Before_irrefl: "\<not> Before t t"
  by (simp add: Before_def)

lemma Before_trans: "Before t u \<Longrightarrow> Before u v \<Longrightarrow> Before t v"
  by (auto simp: Before_def)

lemma Before_asym: "Before t u \<Longrightarrow> \<not> Before u t"
  by (auto simp: Before_def)

lemma Before_total: "t \<noteq> u \<Longrightarrow> Before t u \<or> Before u t"
proof -
  assume "t \<noteq> u"
  then have "sec t \<noteq> sec u \<or> nsec t \<noteq> nsec u" by (auto simp: Time.expand)
  then show ?thesis unfolding Before_def by linarith
qed

lemma Less_iff:
  "Less a b \<longleftrightarrow>
     Before (NextTime a) (NextTime b) \<or>
     (NextTime a = NextTime b \<and>
        (Priority a < Priority b \<or>
         (Priority a = Priority b \<and> ord_class.lexordp (TxID a) (TxID b))))"
  using Before_total[of "NextTime a" "NextTime b"] Before_asym[of "NextTime a" "NextTime b"]
  by (auto simp: Less_def Before_irrefl bytes_Compare_lexordp)

section \<open>Big-endian encoding of 64-bit values\<close>

lemma bit_byte_at:
  "k + 8 \<le> 64 \<Longrightarrow>
   bit (push_bit k (ucast (ucast (drop_bit k v) :: byte)) :: uint64) n \<longleftrightarrow> k \<le> n \<and> n < k + 8 \<and> bit v n"
  for v :: uint64
  by (auto simp add: bit_simps)

lemma be_bytes_join:
  "ucast (ucast v :: byte) OR push_bit 8 (ucast (ucast (drop_bit 8 v) :: byte)) OR
   push_bit 16 (ucast (ucast (drop_bit 16 v) :: byte)) OR
   push_bit 24 (ucast (ucast (drop_bit 24 v) :: byte)) OR
   push_bit 32 (ucast (ucast (drop_bit 32 v) :: byte)) OR
   push_bit 40 (ucast (ucast (drop_bit 40 v) :: byte)) OR
   push_bit 48 (ucast (ucast (drop_bit 48 v) :: byte)) OR
   push_bit 56 (ucast (ucast (drop_bit 56 v) :: byte)) = v" (is "?w = v")
  for v :: uint64
proof (rule bit_word_eqI)
  fix n assume n: "n < LENGTH(64)"
  have b: "bit (ucast (ucast v :: byte) :: uint64) n \<longleftrightarrow> n < 8 \<and> bit v n"
    "bit (push_bit 8 (ucast (ucast (drop_bit 8 v) :: byte)) :: uint64) n \<longleftrightarrow> 8 \<le> n \<and> n < 16 \<and> bit v n"
    "bit (push_bit 16 (ucast (ucast (drop_bit 16 v) :: byte)) :: uint64) n \<longleftrightarrow> 16 \<le> n \<and> n < 24 \<and> bit v n"
    "bit (push_bit 24 (ucast (ucast (drop_bit 24 v) :: byte)) :: uint64) n \<longleftrightarrow> 24 \<le> n \<and> n < 32 \<and> bit v n"
    "bit (push_bit 32 (ucast (ucast (drop_bit 32 v) :: byte)) :: uint64) n \<longleftrightarrow> 32 \<le> n \<and> n < 40 \<and> bit v n"
    "bit (push_bit 40 (ucast (ucast (drop_bit 40 v) :: byte)) :: uint64) n \<longleftrightarrow> 40 \<le> n \<and> n < 48 \<and> bit v n"
    "bit (push_bit 48 (ucast (ucast (drop_bit 48 v) :: byte)) :: uint64) n \<longleftrightarrow> 48 \<le> n \<and> n < 56 \<and> bit v n"
    "bit (push_bit 56 (ucast (ucast (drop_bit 56 v) :: byte)) :: uint64) n \<longleftrightarrow> 56 \<le> n \<and> n < 64 \<and> bit v n"
    using bit_byte_at[of 0 v n] bit_byte_at[of 8 v n] bit_byte_at[of 16 v n]
      bit_byte_at[of 24 v n] bit_byte_at[of 32 v n] bit_byte_at[of 40 v n]
      bit_byte_at[of 48 v n] bit_byte_at[of 56 v n]
    by simp_all
  have "n < 8 \<or> 8 \<le> n \<and> n < 16 \<or> 16 \<le> n \<and> n < 24 \<or> 24 \<le> n \<and> n < 32 \<or>
        32 \<le> n \<and> n < 40 \<or> 40 \<le> n \<and> n < 48 \<or> 48 \<le> n \<and> n < 56 \<or> 56 \<le> n \<and> n < 64"
    using n by simp linarith
  then show "bit ?w n = bit v n"
    unfolding bit_or_iff b by blast
qed

lemma Uint64_PutUint64: "Uint64 (PutUint64 b v) = Some v"
  unfolding PutUint64_def using be_bytes_join[of v] by (simp del: ucast_drop_bit_eq)

lemma be_nat_bound: "be_nat bs < 256 ^ length bs"
proof (induction bs)
  case Nil
  show ?case by simp
next
  case (Cons b bs)
  have "unat b < 256" using unsigned_less[of b] by simp
  then have "unat b * 256 ^ length bs \<le> 255 * 256 ^ length bs" by simp
  from this Cons have "unat b * 256 ^ length bs + be_nat bs < 255 * 256 ^ length bs + 256 ^ length bs"
    by (rule add_le_less_mono)
  then show ?case by simp
qed

lemma bytes_Compare_be_nat:
  "length xs = length ys \<Longrightarrow> be_nat xs < be_nat ys \<Longrightarrow> bytes_Compare (xs @ s) (ys @ t) = - 1"
proof (induction xs ys rule: list_induct2)
  case Nil
  then show ?case by simp
next
  case (Cons x xs y ys)
  show ?case
  proof (cases "x < y")
    case True
    then show ?thesis by simp
  next
    case False
    have "\<not> y < x"
    proof
      assume "y < x"
      then have "unat y + 1 \<le> unat x" by (simp add: word_less_nat_alt)
      then have "(unat y + 1) * 256 ^ length ys \<le> unat x * 256 ^ length ys"
        by (rule mult_le_mono1)
      moreover have "be_nat ys < 256 ^ length ys" by (rule be_nat_bound)
      ultimately have "be_nat (y # ys) < unat x * 256 ^ length ys" by simp
      with Cons.prems Cons.hyps show False by simp
    qed
    with False have "x = y" by simp
    with Cons show ?thesis by simp
  qed
qed

lemma unat_NOT_uint64: "unat (NOT h) = 2 ^ 64 - 1 - unat h" for h :: uint64
proof -
  have "NOT h = - 1 - h" by (simp add: not_eq_complement)
  moreover have "unat (- 1 - h) = unat (- 1 :: uint64) - unat h"
    by (rule unat_sub) simp
  ultimately show ?thesis by (simp add: unsigned_minus_1_eq_mask mask_eq_exp_minus_1)
qed

lemma unat_byte_at: "unat (ucast (drop_bit k v) :: byte) = (unat v div 2 ^ k) mod 256" for v :: uint64
proof -
  have "unat (ucast (drop_bit k v) :: byte) = take_bit 8 (drop_bit k (unat v))"
    by (simp only: unsigned_ucast_eq unat_drop_bit_eq) simp
  then show ?thesis by (simp add: drop_bit_eq_div take_bit_eq_mod)
qed

lemma div_step: "n div 2 ^ k = n div 2 ^ (k + 8) * 256 + n div 2 ^ k mod 256" for n :: nat
proof -
  have "n div 2 ^ (k + 8) = n div 2 ^ k div 256"
    by (simp add: power_add div_mult2_eq)
  then show ?thesis by simp
qed

lemma be_digits:
  fixes n :: nat
  assumes "n < 2 ^ 64"
  shows "n div 2 ^ 56 mod 256 * 256 ^ 7 + n div 2 ^ 48 mod 256 * 256 ^ 6 +
         n div 2 ^ 40 mod 256 * 256 ^ 5 + n div 2 ^ 32 mod 256 * 256 ^ 4 +
         n div 2 ^ 24 mod 256 * 256 ^ 3 + n div 2 ^ 16 mod 256 * 256 ^ 2 +
         n div 2 ^ 8 mod 256 * 256 + n mod 256 = n"
proof -
  define q8 q16 q24 q32 q40 q48 q56 where
    "q8 = n div 2 ^ 8" and "q16 = n div 2 ^ 16" and "q24 = n div 2 ^ 24" and
    "q32 = n div 2 ^ 32" and "q40 = n div 2 ^ 40" and "q48 = n div 2 ^ 48" and
    "q56 = n div 2 ^ 56"
  define r0 r8 r16 r24 r32 r40 r48 r56 where
    "r0 = n mod 256" and "r8 = q8 mod 256" and "r16 = q16 mod 256" and
    "r24 = q24 mod 256" and "r32 = q32 mod 256" and "r40 = q40 mod 256" and
    "r48 = q48 mod 256" and "r56 = q56 mod 256"
  have s0: "n = q8 * 256 + r0"
    using div_step[of n 0] by (simp add: q8_def r0_def)
  have s8: "q8 = q16 * 256 + r8"
    using div_step[of n 8] by (simp add: q8_def q16_def r8_def)
  have s16: "q16 = q24 * 256 + r16"
    using div_step[of n 16] by (simp add: q16_def q24_def r16_def)
  have s24: "q24 = q32 * 256 + r24"
    using div_step[of n 24] by (simp add: q24_def q32_def r24_def)
  have s32: "q32 = q40 * 256 + r32"
    using div_step[of n 32] by (simp add: q32_def q40_def r32_def)
  have s40: "q40 = q48 * 256 + r40"
    using div_step[of n 40] by (simp add: q40_def q48_def r40_def)
  have s48: "q48 = q56 * 256 + r48"
    using div_step[of n 48] by (simp add: q48_def q56_def r48_def)
  have "q56 < 256"
    unfolding q56_def using assms by (simp add: less_mult_imp_div_less)
  then have s56: "q56 = r56" by (simp add: r56_def)
  have "r56 * 256 ^ 7 + r48 * 256 ^ 6 + r40 * 256 ^ 5 + r32 * 256 ^ 4 +
        r24 * 256 ^ 3 + r16 * 256 ^ 2 + r8 * 256 + r0 = n"
    using s0 s8 s16 s24 s32 s40 s48 s56 by simp
  then show ?thesis
    by (simp only: q8_def q16_def q24_def q32_def q40_def q48_def q56_def
        r0_def r8_def r16_def r24_def r32_def r40_def r48_def r56_def)
qed

lemma be_nat_PutUint64: "be_nat (PutUint64 [] v) = unat v"
proof -
  let ?n = "unat v"
  have n: "?n < 2 ^ 64" using unsigned_less[of v] by simp
  have b: "unat (ucast v :: byte) = ?n mod 256" using unat_byte_at[of 0 v] by simp
  have "be_nat (PutUint64 [] v) =
        (?n div 2 ^ 56) mod 256 * 256 ^ 7 + (?n div 2 ^ 48) mod 256 * 256 ^ 6 +
        (?n div 2 ^ 40) mod 256 * 256 ^ 5 + (?n div 2 ^ 32) mod 256 * 256 ^ 4 +
        (?n div 2 ^ 24) mod 256 * 256 ^ 3 + (?n div 2 ^ 16) mod 256 * 256 ^ 2 +
        (?n div 2 ^ 8) mod 256 * 256 + ?n mod 256"
    unfolding PutUint64_def by (simp add: unat_byte_at b del: ucast_drop_bit_eq)
  also have "\<dots> = ?n" using n by (rule be_digits)
  finally show ?thesis .
qed

section \<open>Layout of encoded keys and values\<close>

lemma length_PutUint64_Nil: "length (PutUint64 [] v) = 8"
  by (simp add: PutUint64_def)

lemma PutUint64_split: "8 \<le> length b \<Longrightarrow> PutUint64 b v = PutUint64 [] v @ drop 8 b"
  by (simp add: PutUint64_def)

lemma marshalDiffKey_layout:
  assumes "length subnetID = IDLen"
  shows "marshalDiffKey subnetID height nodeID = subnetID @ PutUint64 [] (NOT height) @ nodeID"
proof -
  have len: "length subnetID = 32" using assms by (simp add: IDLen_def)
  show ?thesis
    unfolding marshalDiffKey_def Let_def copy_bytes_def packIterableHeight_def NodeID_Bytes_def
      startDiffKeyLength_def diffKeyNodeIDOffset_def IDLen_def Uint64Size_def
    using len by (simp add: PutUint64_def del: ucast_drop_bit_eq)
qed

lemma marshalStartDiffKey_layout:
  assumes "length subnetID = IDLen"
  shows "marshalStartDiffKey subnetID height = subnetID @ PutUint64 [] (NOT height)"
proof -
  have len: "length subnetID = 32" using assms by (simp add: IDLen_def)
  show ?thesis
    unfolding marshalStartDiffKey_def Let_def copy_bytes_def packIterableHeight_def
      startDiffKeyLength_def IDLen_def Uint64Size_def
    using len by (simp add: PutUint64_def del: ucast_drop_bit_eq)
qed

lemma unmarshalDiffKey_layout:
  assumes "length subnetID = IDLen"
  shows "unmarshalDiffKey (subnetID @ PutUint64 [] v @ nodeID) = Inr (subnetID, NOT v, nodeID)"
proof -
  have len: "length subnetID = 32" using assms by (simp add: IDLen_def)
  have "PutUint64 [] v @ nodeID = PutUint64 (replicate 8 0 @ nodeID) v"
    by (simp add: PutUint64_def del: ucast_drop_bit_eq)
  then have u: "Uint64 (PutUint64 [] v @ nodeID) = Some v"
    by (simp only: Uint64_PutUint64)
  show ?thesis
    unfolding unmarshalDiffKey_def Let_def copy_bytes_def unpackIterableHeight_def NodeIDFromBytes_def
      startDiffKeyLength_def diffKeyNodeIDOffset_def IDLen_def Uint64Size_def
    using len u by (simp add: length_PutUint64_Nil)
qed

lemma marshalWeightDiff_layout:
  "marshalWeightDiff diff = (if Decrease diff then 1 else 0) # PutUint64 [] (Amount diff)"
  unfolding marshalWeightDiff_def Let_def weightValueLength_def BoolSize_def Uint64Size_def BoolTrue_def
  by (simp add: PutUint64_def numeral_eq_Suc del: ucast_drop_bit_eq)

lemma unmarshalWeightDiff_layout:
  "unmarshalWeightDiff (b # PutUint64 [] v) = Inr \<lparr> Decrease = (b = 1), Amount = v \<rparr>"
  unfolding unmarshalWeightDiff_def weightValueLength_def BoolSize_def Uint64Size_def BoolTrue_def
  using Uint64_PutUint64[of "[]" v] by (simp add: length_PutUint64_Nil)

lemma NOT_less_flip: "h1 < h2 \<Longrightarrow> NOT h2 < NOT h1" for h1 h2 :: uint64
proof -
  assume "h1 < h2"
  then have "unat h1 < unat h2" by (simp add: word_less_nat_alt)
  moreover have "unat h2 < 2 ^ 64" using unsigned_less[of h2, where 'a=nat] by simp
  ultimately have "2 ^ 64 - 1 - unat h2 < 2 ^ 64 - 1 - unat h1" by simp
  then show ?thesis by (simp only: word_less_nat_alt unat_NOT_uint64)
qed

lemma bytes_Compare_append_same: "bytes_Compare (p @ xs) (p @ ys) = bytes_Compare xs ys"
  by (induction p) simp_all

lemma bytes_Compare_swap: "bytes_Compare xs ys = - 1 \<longleftrightarrow> bytes_Compare ys xs = 1"
  by (simp add: bytes_Compare_lexordp bytes_Compare_flip)

lemma marshalDiffKey_descending:
  assumes "length subnetID = IDLen" and "h1 < h2"
  shows "bytes_Compare (marshalDiffKey subnetID h1 nodeID) (marshalDiffKey subnetID h2 nodeID) = 1"
proof -
  have "be_nat (PutUint64 [] (NOT h2)) < be_nat (PutUint64 [] (NOT h1))"
    using NOT_less_flip[OF assms(2)] by (simp add: be_nat_PutUint64 word_less_nat_alt)
  then have "bytes_Compare (PutUint64 [] (NOT h2) @ nodeID) (PutUint64 [] (NOT h1) @ nodeID) = - 1"
    by (intro bytes_Compare_be_nat) (simp_all add: length_PutUint64_Nil)
  then have "bytes_Compare (PutUint64 [] (NOT h1) @ nodeID) (PutUint64 [] (NOT h2) @ nodeID) = 1"
    by (simp only: bytes_Compare_swap)
  then show ?thesis
    by (simp only: marshalDiffKey_layout[OF assms(1)] bytes_Compare_append_same)
qed

lemma Uint64_None_short: "Uint64 b = None \<Longrightarrow> length b < 8"
  by (cases b rule: Uint64.cases) simp_all

lemma Uint64_total: "8 \<le> length b \<Longrightarrow> \<exists>v. Uint64 b = Some v"
  using Uint64_None_short[of b] by (cases "Uint64 b") simp_all

section \<open>Arithmetic of instants\<close>

lemma wrap64_id: "- (2 ^ 63) \<le> x \<Longrightarrow> x < 2 ^ 63 \<Longrightarrow> wrap64 x = x"
  by (simp add: wrap64_def)

lemma wrap64_high: "2 ^ 63 \<le> x \<Longrightarrow> x < 2 ^ 63 + 2 ^ 64 \<Longrightarrow> wrap64 x = x - 2 ^ 64"
proof -
  assume a: "2 ^ 63 \<le> x" "x < 2 ^ 63 + 2 ^ 64"
  have "(x + 2 ^ 63) mod 2 ^ 64 = ((x - 2 ^ 63) + 2 ^ 64) mod 2 ^ 64" by (simp add: algebra_simps)
  also have "\<dots> = (x - 2 ^ 63) mod 2 ^ 64" by (rule mod_add_self2)
  also have "\<dots> = x - 2 ^ 63" using a by simp
  finally show ?thesis by (simp add: wrap64_def)
qed

lemma wrap64_low: "- (2 ^ 63) - 2 ^ 64 \<le> x \<Longrightarrow> x < - (2 ^ 63) \<Longrightarrow> wrap64 x = x + 2 ^ 64"
proof -
  assume a: "- (2 ^ 63) - 2 ^ 64 \<le> x" "x < - (2 ^ 63)"
  have "(x + 2 ^ 63 + 2 ^ 64) mod 2 ^ 64 = (x + 2 ^ 63) mod 2 ^ 64" by (rule mod_add_self2)
  moreover have "(x + 2 ^ 63 + 2 ^ 64) mod 2 ^ 64 = x + 2 ^ 63 + 2 ^ 64" using a by simp
  ultimately show ?thesis by (simp add: wrap64_def)
qed

lemma addSec_cases:
  assumes "- (2 ^ 63) \<le> ext" "ext < 2 ^ 63" "- (2 ^ 63) \<le> d" "d < 2 ^ 63"
  shows "addSec ext d =
     (if 2 ^ 63 \<le> ext + d then 2 ^ 63 - 1
      else if ext + d < - (2 ^ 63) then - (2 ^ 63 - 1)
      else ext + d)"
proof -
  consider (hi) "2 ^ 63 \<le> ext + d" | (lo) "ext + d < - (2 ^ 63)"
    | (mid) "- (2 ^ 63) \<le> ext + d" "ext + d < 2 ^ 63" by linarith
  then show ?thesis
  proof cases
    case hi
    then have "wrap64 (ext + d) = ext + d - 2 ^ 64" using assms by (intro wrap64_high) simp_all
    moreover have "0 < d" using hi assms by simp
    ultimately show ?thesis using hi assms by (simp add: addSec_def)
  next
    case lo
    then have "wrap64 (ext + d) = ext + d + 2 ^ 64" using assms by (intro wrap64_low) simp_all
    moreover have "d < 0" using lo assms by simp
    ultimately show ?thesis using lo assms by (simp add: addSec_def)
  next
    case mid
    then have "wrap64 (ext + d) = ext + d" by (intro wrap64_id)
    then show ?thesis using mid by (auto simp: addSec_def)
  qed
qed

lemma quo_rem:
  fixes d :: int
  shows "d = 1000000000 * quo d 1000000000 + rem d 1000000000"
    and "- 1000000000 < rem d 1000000000" and "rem d 1000000000 < 1000000000"
proof -
  show "d = 1000000000 * quo d 1000000000 + rem d 1000000000" by (simp add: rem_def)
  have pos: "0 \<le> d \<Longrightarrow> rem d 1000000000 = d mod 1000000000"
    by (cases "d = 0") (simp_all add: rem_def quo_def minus_mult_div_eq_mod)
  have neg: "d < 0 \<Longrightarrow> rem d 1000000000 = - ((- d) mod 1000000000)"
  proof -
    assume "d < 0"
    then have "rem d 1000000000 = d + 1000000000 * ((- d) div 1000000000)"
      by (simp add: rem_def quo_def)
    also have "\<dots> = - ((- d) - 1000000000 * ((- d) div 1000000000))" by simp
    also have "\<dots> = - ((- d) mod 1000000000)" by (simp only: minus_mult_div_eq_mod)
    finally show ?thesis .
  qed
  show "- 1000000000 < rem d 1000000000"
  proof (cases "0 \<le> d")
    case True then show ?thesis using pos by simp
  next
    case False
    then have "rem d 1000000000 = - ((- d) mod 1000000000)" using neg by simp
    moreover have "(- d) mod 1000000000 < 1000000000" by simp
    ultimately show ?thesis by linarith
  qed
  show "rem d 1000000000 < 1000000000"
  proof (cases "0 \<le> d")
    case True then show ?thesis using pos by simp
  next
    case False
    then have "rem d 1000000000 = - ((- d) mod 1000000000)" using neg by simp
    moreover have "0 \<le> (- d) mod 1000000000" by simp
    ultimately show ?thesis by linarith
  qed
qed

lemma Add_norm:
  assumes "0 \<le> nsec t" "nsec t < 1000000000"
  shows "Add t d = Time (addSec (sec t) ((nsec t + d) div 1000000000)) ((nsec t + d) mod 1000000000)"
proof -
  define Q where "Q = quo d 1000000000"
  define R where "R = rem d 1000000000"
  have d: "d = 1000000000 * Q + R" and R: "- 1000000000 < R" "R < 1000000000"
    unfolding Q_def R_def by (rule quo_rem)+
  consider (hi) "1000000000 \<le> nsec t + R" | (lo) "nsec t + R < 0"
    | (mid) "0 \<le> nsec t + R" "nsec t + R < 1000000000" by linarith
  then show ?thesis
  proof cases
    case hi
    have e: "nsec t + d = 1000000000 * (Q + 1) + (nsec t + R - 1000000000)" using d by simp
    have "(nsec t + d) div 1000000000 = Q + 1"
      by (rule int_div_pos_eq[OF e]) (use hi assms R in simp_all)
    moreover have "(nsec t + d) mod 1000000000 = nsec t + R - 1000000000"
      by (rule int_mod_pos_eq[OF e]) (use hi assms R in simp_all)
    ultimately show ?thesis using hi by (simp add: Add_def Let_def Q_def R_def)
  next
    case lo
    have e: "nsec t + d = 1000000000 * (Q - 1) + (nsec t + R + 1000000000)" using d by simp
    have "(nsec t + d) div 1000000000 = Q - 1"
      by (rule int_div_pos_eq[OF e]) (use lo assms R in simp_all)
    moreover have "(nsec t + d) mod 1000000000 = nsec t + R + 1000000000"
      by (rule int_mod_pos_eq[OF e]) (use lo assms R in simp_all)
    ultimately show ?thesis using lo by (simp add: Add_def Let_def Q_def R_def)
  next
    case mid
    have e: "nsec t + d = 1000000000 * Q + (nsec t + R)" using d by simp
    have "(nsec t + d) div 1000000000 = Q"
      by (rule int_div_pos_eq[OF e]) (use mid in simp_all)
    moreover have "(nsec t + d) mod 1000000000 = nsec t + R"
      by (rule int_mod_pos_eq[OF e]) (use mid in simp_all)
    ultimately show ?thesis using mid by (simp add: Add_def Let_def Q_def R_def)
  qed
qed

lemma wf_Time_representable: "wf_Time t \<Longrightarrow> representable (nanos t)"
  by (simp add: wf_Time_def representable_def nanos_def)

lemma nanos_inj:
  assumes "wf_Time t" "wf_Time u" "nanos t = nanos u"
  shows "t = u"
proof -
  have e: "sec t * 1000000000 + nsec t = sec u * 1000000000 + nsec u"
    using assms(3) by (simp add: nanos_def)
  have r: "0 \<le> nsec t" "nsec t < 1000000000" "0 \<le> nsec u" "nsec u < 1000000000"
    using assms(1,2) by (simp_all add: wf_Time_def)
  have "sec t = sec u" using e r by linarith
  moreover from this e have "nsec t = nsec u" by simp
  ultimately show ?thesis by (simp add: Time.expand)
qed

lemma Before_nanos:
  assumes "wf_Time t" "wf_Time u"
  shows "Before t u \<longleftrightarrow> nanos t < nanos u"
proof -
  have r: "0 \<le> nsec t" "nsec t < 1000000000" "0 \<le> nsec u" "nsec u < 1000000000"
    using assms by (simp_all add: wf_Time_def)
  show ?thesis unfolding Before_def nanos_def using r by linarith
qed

lemma Add_cases:
  assumes t: "wf_Time t" and d: "wf_Duration d"
  shows "wf_Time (Add t d)"
    and "representable (nanos t + d) \<Longrightarrow> nanos (Add t d) = nanos t + d"
    and "2 ^ 63 * 1000000000 \<le> nanos t + d \<Longrightarrow> sec (Add t d) = 2 ^ 63 - 1"
    and "nanos t + d < - (2 ^ 63) * 1000000000 \<Longrightarrow> sec (Add t d) = - (2 ^ 63 - 1)"
proof -
  define q where "q = (nsec t + d) div 1000000000"
  define n where "n = (nsec t + d) mod 1000000000"
  have N: "0 \<le> nsec t" "nsec t < 1000000000" and S: "- (2 ^ 63) \<le> sec t" "sec t < 2 ^ 63"
    using t by (simp_all add: wf_Time_def)
  have D: "- (2 ^ 63) \<le> d" "d < 2 ^ 63" using d by (simp_all add: wf_Duration_def)
  have n: "0 \<le> n" "n < 1000000000" by (simp_all add: n_def)
  have e: "nsec t + d = 1000000000 * q + n" by (simp add: q_def n_def)
  have q: "- (2 ^ 63) \<le> q" "q < 2 ^ 63" using e n N D by simp_all
  have A: "Add t d = Time (addSec (sec t) q) n"
    unfolding q_def n_def by (rule Add_norm[OF N])
  have sec: "addSec (sec t) q =
     (if 2 ^ 63 \<le> sec t + q then 2 ^ 63 - 1
      else if sec t + q < - (2 ^ 63) then - (2 ^ 63 - 1)
      else sec t + q)"
    by (rule addSec_cases[OF S q])
  have tot: "nanos t + d = 1000000000 * (sec t + q) + n" using e by (simp add: nanos_def)
  show "wf_Time (Add t d)" using n by (simp add: A sec wf_Time_def)
  show "nanos (Add t d) = nanos t + d" if "representable (nanos t + d)"
  proof -
    have "\<not> 2 ^ 63 \<le> sec t + q" "\<not> sec t + q < - (2 ^ 63)"
      using that n unfolding tot representable_def by simp_all
    then show ?thesis using e by (simp add: A sec nanos_def algebra_simps)
  qed
  show "sec (Add t d) = 2 ^ 63 - 1" if "2 ^ 63 * 1000000000 \<le> nanos t + d"
  proof -
    have "2 ^ 63 \<le> sec t + q" using that n unfolding tot by simp
    then show ?thesis by (simp add: A sec)
  qed
  show "sec (Add t d) = - (2 ^ 63 - 1)" if "nanos t + d < - (2 ^ 63) * 1000000000"
  proof -
    have "sec t + q < - (2 ^ 63)" using that n unfolding tot by simp
    then show ?thesis by (simp add: A sec)
  qed
qed

lemma wrap64_add_left: "wrap64 (wrap64 a + c) = wrap64 (a + c)"
proof -
  have "(((a + 2 ^ 63) mod 2 ^ 64 - 2 ^ 63) + c + 2 ^ 63) mod 2 ^ 64
      = ((a + 2 ^ 63) mod 2 ^ 64 + c) mod (2 ^ 64 :: int)" by (simp add: algebra_simps)
  also have "\<dots> = (a + 2 ^ 63 + c) mod 2 ^ 64" by (rule mod_add_left_eq)
  also have "\<dots> = (a + c + 2 ^ 63) mod 2 ^ 64" by (simp add: algebra_simps)
  finally show ?thesis by (simp add: wrap64_def)
qed

lemma wrap64_mult_left: "wrap64 (wrap64 a * c) = wrap64 (a * c)"
proof -
  have "((a + 2 ^ 63) mod 2 ^ 64 - 2 ^ 63) mod (2 ^ 64 :: int) = (a + 2 ^ 63 - 2 ^ 63) mod 2 ^ 64"
    by (rule mod_diff_left_eq)
  then have X: "((a + 2 ^ 63) mod 2 ^ 64 - 2 ^ 63) mod (2 ^ 64 :: int) = a mod 2 ^ 64" by simp
  have "(((a + 2 ^ 63) mod 2 ^ 64 - 2 ^ 63) * c) mod (2 ^ 64 :: int) = (a * c) mod 2 ^ 64"
    by (rule mod_mult_cong[OF X refl])
  then have "(((a + 2 ^ 63) mod 2 ^ 64 - 2 ^ 63) * c + 2 ^ 63) mod (2 ^ 64 :: int)
      = (a * c + 2 ^ 63) mod 2 ^ 64"
    by (rule mod_add_cong[OF _ refl])
  then show ?thesis by (simp add: wrap64_def)
qed

lemma Sub_exact:
  assumes t: "wf_Time t" and u: "wf_Time u" and d: "wf_Duration (nanos t - nanos u)"
  shows "Sub t u = nanos t - nanos u"
proof -
  have "wrap64 (wrap64 (wrap64 (sec t - sec u) * Second) + (nsec t - nsec u))
      = wrap64 ((sec t - sec u) * Second + (nsec t - nsec u))"
    by (simp only: wrap64_mult_left wrap64_add_left)
  also have "(sec t - sec u) * Second + (nsec t - nsec u) = nanos t - nanos u"
    by (simp add: nanos_def Second_def algebra_simps)
  also have "wrap64 (nanos t - nanos u) = nanos t - nanos u"
    using d by (intro wrap64_id) (simp_all add: wf_Duration_def)
  finally have w: "wrap64 (wrap64 (wrap64 (sec t - sec u) * Second) + (nsec t - nsec u)) = nanos t - nanos u" .
  have "representable (nanos u + (nanos t - nanos u))" using wf_Time_representable[OF t] by simp
  then have "nanos (Add u (nanos t - nanos u)) = nanos t" using Add_cases(2)[OF u d] by simp
  then have "Add u (nanos t - nanos u) = t" using Add_cases(1)[OF u d] t by (intro nanos_inj)
  then show ?thesis by (simp add: Sub_def w Equal_def)
qed

lemma wrap64_range: "- (2 ^ 63) \<le> wrap64 x" "wrap64 x < 2 ^ 63"
  by (simp_all add: wrap64_def)

lemma Sub_saturates:
  assumes t: "wf_Time t" and u: "wf_Time u"
  shows "2 ^ 63 - 1 < nanos t - nanos u \<Longrightarrow> Sub t u = maxDuration"
    and "nanos t - nanos u < - (2 ^ 63) \<Longrightarrow> Sub t u = minDuration"
proof -
  define d where "d = wrap64 (wrap64 (wrap64 (sec t - sec u) * Second) + (nsec t - nsec u))"
  have dr: "- (2 ^ 63) \<le> d" "d < 2 ^ 63" unfolding d_def by (rule wrap64_range)+
  then have wd: "wf_Duration d" by (simp add: wf_Duration_def)
  have rt: "- (2 ^ 63) * 1000000000 \<le> nanos t" "nanos t < 2 ^ 63 * 1000000000"
    using wf_Time_representable[OF t] by (simp_all add: representable_def)
  have ru: "- (2 ^ 63) * 1000000000 \<le> nanos u" "nanos u < 2 ^ 63 * 1000000000"
    using wf_Time_representable[OF u] by (simp_all add: representable_def)
  have st: "sec t * 1000000000 \<le> nanos t" "nanos t < (sec t + 1) * 1000000000"
    using t by (simp_all add: nanos_def wf_Time_def)
  have S: "Sub t u = (if Equal (Add u d) t then d else if Before t u then minDuration else maxDuration)"
    by (simp add: Sub_def d_def Let_def)
  have ne: "Add u d \<noteq> t" if out: "2 ^ 63 - 1 < nanos t - nanos u \<or> nanos t - nanos u < - (2 ^ 63)"
  proof
    assume e: "Add u d = t"
    consider (mid) "representable (nanos u + d)" | (hi) "2 ^ 63 * 1000000000 \<le> nanos u + d"
      | (lo) "nanos u + d < - (2 ^ 63) * 1000000000"
      unfolding representable_def by linarith
    then show False
    proof cases
      case mid
      then have "nanos t = nanos u + d" using Add_cases(2)[OF u wd] e by simp
      then show False using out dr by linarith
    next
      case hi
      then have "sec t = 2 ^ 63 - 1" using Add_cases(3)[OF u wd] e by simp
      then show False using out dr hi rt ru st by simp
    next
      case lo
      then have "sec t = - (2 ^ 63 - 1)" using Add_cases(4)[OF u wd] e by simp
      then show False using out dr lo rt ru st by simp
    qed
  qed
  show "Sub t u = maxDuration" if "2 ^ 63 - 1 < nanos t - nanos u"
  proof -
    have "\<not> Before t u" using that Before_nanos[OF t u] by simp
    moreover have "\<not> Equal (Add u d) t" using ne that by (auto simp: Equal_def Time.expand)
    ultimately show ?thesis by (simp add: S)
  qed
  show "Sub t u = minDuration" if "nanos t - nanos u < - (2 ^ 63)"
  proof -
    have "Before t u" using that Before_nanos[OF t u] by simp
    moreover have "\<not> Equal (Add u d) t" using ne that by (auto simp: Equal_def Time.expand)
    ultimately show ?thesis by (simp add: S)
  qed
qed

section \<open>The loop that walks the end time forward\<close>

lemma walk_end_steps:
  assumes p: "wf_Duration p" "0 < p" and stop: "wf_Time stop"
  shows "wf_Time e \<Longrightarrow> nanos stop \<le> nanos e + int k * p \<Longrightarrow>
     (\<forall>j<k. nanos e + int j * p < nanos stop) \<Longrightarrow> representable (nanos e + int k * p) \<Longrightarrow>
     \<exists>e'. wf_Time e' \<and> nanos e' = nanos e + int k * p \<and> walk_end p stop e = Some e'"
proof (induction k arbitrary: e)
  case 0
  then have "\<not> Before e stop" using Before_nanos[OF 0(1) stop] by simp
  then have "walk_end p stop e = Some e" by (subst walk_end.simps) simp
  then show ?case using 0(1) by simp
next
  case (Suc k)
  from Suc.prems(3) have "nanos e + int 0 * p < nanos stop" by blast
  then have lt: "Before e stop" using Before_nanos[OF Suc.prems(1) stop] by simp
  have kp: "0 \<le> int k * p" using p(2) by simp
  have eq: "nanos e + int (Suc k) * p = nanos e + p + int k * p" by (simp add: algebra_simps)
  have "representable (nanos e)" using Suc.prems(1) by (rule wf_Time_representable)
  then have r: "representable (nanos e + p)"
    using Suc.prems(4) kp p(2) unfolding representable_def eq by linarith
  have w: "wf_Time (Add e p)" using Suc.prems(1) p(1) by (rule Add_cases(1))
  have n: "nanos (Add e p) = nanos e + p" using Suc.prems(1) p(1) r by (rule Add_cases(2))
  have "\<exists>e'. wf_Time e' \<and> nanos e' = nanos (Add e p) + int k * p \<and> walk_end p stop (Add e p) = Some e'"
  proof (rule Suc.IH[OF w])
    show "nanos stop \<le> nanos (Add e p) + int k * p"
      using Suc.prems(2) by (simp add: n algebra_simps)
    show "\<forall>j<k. nanos (Add e p) + int j * p < nanos stop"
    proof (intro allI impI)
      fix j assume "j < k"
      then have "Suc j < Suc k" by simp
      with Suc.prems(3) have "nanos e + int (Suc j) * p < nanos stop" by blast
      then show "nanos (Add e p) + int j * p < nanos stop" by (simp add: n algebra_simps)
    qed
    show "representable (nanos (Add e p) + int k * p)"
      using Suc.prems(4) by (simp add: n algebra_simps)
  qed
  then obtain e' where e': "wf_Time e'" "nanos e' = nanos (Add e p) + int k * p"
    "walk_end p stop (Add e p) = Some e'" by blast
  have "walk_end p stop e = Some e'" using lt e'(3) by (subst walk_end.simps) simp
  moreover have "nanos e' = nanos e + int (Suc k) * p" using e'(2) by (simp add: n algebra_simps)
  ultimately show ?case using e'(1) by blast
qed

lemma least_period_exists:
  fixes p :: int
  assumes "0 < p"
  shows "\<exists>k::nat. stop \<le> e + int k * p \<and> (\<forall>j<k. e + int j * p < stop)"
proof -
  let ?P = "\<lambda>k::nat. stop \<le> e + int k * p"
  have "?P (nat (stop - e))"
  proof (cases "stop \<le> e")
    case True
    then show ?thesis by simp
  next
    case False
    then have "(stop - e) * 1 \<le> (stop - e) * p" using assms by (intro mult_left_mono) simp_all
    then have "stop \<le> e + (stop - e) * p" by (simp only: mult_1_right)
    moreover have "int (nat (stop - e)) = stop - e" using False by simp
    ultimately show ?thesis by (simp only:)
  qed
  then have ex: "\<exists>k. ?P k" ..
  have "?P (LEAST k. ?P k)" using ex by (rule LeastI_ex)
  moreover have "\<forall>j<(LEAST k. ?P k). e + int j * p < stop"
    using not_less_Least[of _ ?P] by (auto simp: not_le)
  ultimately show ?thesis by blast
qed

lemma walk_end_terminates:
  assumes p: "wf_Duration p" "0 < p" and stop: "wf_Time stop" "sec stop < 2 ^ 63 - 1"
  shows "wf_Time e \<Longrightarrow> \<exists>e'. walk_end p stop e = Some e'"
proof (induction "nat (nanos stop - nanos e)" arbitrary: e rule: less_induct)
  case less
  show ?case
  proof (cases "Before e stop")
    case False
    then have "walk_end p stop e = Some e" by (subst walk_end.simps) simp
    then show ?thesis by blast
  next
    case True
    then have lt: "nanos e < nanos stop" using Before_nanos[OF less.prems stop(1)] by simp
    have w: "wf_Time (Add e p)" using less.prems p(1) by (rule Add_cases(1))
    have s: "walk_end p stop e = walk_end p stop (Add e p)"
      using True by (subst walk_end.simps) simp
    show ?thesis
    proof (cases "representable (nanos e + p)")
      case True
      then have n: "nanos (Add e p) = nanos e + p" using Add_cases(2)[OF less.prems p(1)] by simp
      have "nat (nanos stop - nanos (Add e p)) < nat (nanos stop - nanos e)"
        using lt p(2) by (simp add: n)
      then have "\<exists>e'. walk_end p stop (Add e p) = Some e'" using w by (rule less.hyps)
      then show ?thesis by (simp add: s)
    next
      case False
      moreover have "representable (nanos e)" using less.prems by (rule wf_Time_representable)
      ultimately have "2 ^ 63 * 1000000000 \<le> nanos e + p"
        using p(2) unfolding representable_def by simp
      then have "sec (Add e p) = 2 ^ 63 - 1" using Add_cases(3)[OF less.prems p(1)] by simp
      then have "\<not> Before (Add e p) stop" using stop(2) by (simp add: Before_def)
      then have "walk_end p stop (Add e p) = Some (Add e p)" by (subst walk_end.simps) simp
      then show ?thesis by (simp add: s)
    qed
  qed
qed

lemma walk_end_invariant_aux:
  assumes "walk_end p' stop' e = Some y"
    and "\<And>e. I e \<Longrightarrow> Before e stop \<and> I (Add e p)"
  shows "\<not> (p' = p \<and> stop' = stop \<and> I e)"
  using assms(1)
proof (induction rule: walk_end.raw_induct[rotated 1, consumes 1])
  case (1 walk_end' p' stop' e y)
  show ?case
  proof
    assume a: "p' = p \<and> stop' = stop \<and> I e"
    then have b: "Before e stop" "I (Add e p)" using assms(2) by blast+
    with a 1(2) have "walk_end' p' stop' (Add e p) = Some y" by simp
    then have "\<not> (p' = p \<and> stop' = stop \<and> I (Add e p))" by (rule 1(1))
    with a b show False by simp
  qed
qed

lemma walk_end_invariant:
  assumes "\<And>e. I e \<Longrightarrow> Before e stop \<and> I (Add e p)" and "I e"
  shows "walk_end p stop e = None"
proof (cases "walk_end p stop e")
  case None
  then show ?thesis .
next
  case (Some y)
  then have "\<not> (p = p \<and> stop = stop \<and> I e)" using assms(1) by (rule walk_end_invariant_aux)
  with assms(2) show ?thesis by simp
qed

lemma walk_end_diverges:
  assumes p: "wf_Duration p" "p \<le> 0" and stop: "wf_Time stop" "p = 0 \<or> - (2 ^ 63 - 1) < sec stop"
    and e: "wf_Time e" "Before e stop"
  shows "walk_end p stop e = None"
proof (rule walk_end_invariant[where I = "\<lambda>e. wf_Time e \<and> Before e stop"])
  show "wf_Time e \<and> Before e stop" using e by simp
  fix e assume a: "wf_Time e \<and> Before e stop"
  then have we: "wf_Time e" and lt: "nanos e < nanos stop"
    using Before_nanos[OF _ stop(1), of e] by simp_all
  have w: "wf_Time (Add e p)" using we p(1) by (rule Add_cases(1))
  have "Before (Add e p) stop"
  proof (cases "representable (nanos e + p)")
    case True
    then have "nanos (Add e p) = nanos e + p" using Add_cases(2)[OF we p(1)] by simp
    then show ?thesis using lt p(2) Before_nanos[OF w stop(1)] by simp
  next
    case False
    moreover have "representable (nanos e)" using we by (rule wf_Time_representable)
    ultimately have lo: "nanos e + p < - (2 ^ 63) * 1000000000" and "p \<noteq> 0"
      using p(2) unfolding representable_def by auto
    then have "sec (Add e p) = - (2 ^ 63 - 1)" using Add_cases(4)[OF we p(1)] by simp
    then show ?thesis using stop(2) \<open>p \<noteq> 0\<close> by (simp add: Before_def)
  qed
  then show "Before e stop \<and> wf_Time (Add e p) \<and> Before (Add e p) stop" using a w by simp
qed

section \<open>The claims\<close>

text \<open>
  C1. \<open>Staker.Less\<close> is a strict total order on stakers keyed by
  (\<open>NextTime\<close>, \<open>Priority\<close>, \<open>TxID\<close>): it is irreflexive and transitive; of two stakers
  whose keys differ exactly one is less than the other; and it compares the earlier
  \<open>NextTime\<close> first, then the smaller \<open>Priority\<close>, then the lexicographically smaller
  \<open>TxID\<close> bytes.
\<close>

theorem Less_strict_total_order:
  "\<not> Less a a \<and>
   (Less a b \<and> Less b c \<longrightarrow> Less a c) \<and>
   ((NextTime a, Priority a, TxID a) \<noteq> (NextTime b, Priority b, TxID b) \<longrightarrow>
      (Less a b \<longleftrightarrow> \<not> Less b a)) \<and>
   (Less a b \<longleftrightarrow>
      Before (NextTime a) (NextTime b) \<or>
      (NextTime a = NextTime b \<and>
        (Priority a < Priority b \<or>
         (Priority a = Priority b \<and> ord_class.lexordp (TxID a) (TxID b)))))"
proof (intro conjI impI)
  show "\<not> Less a a"
    by (simp add: Less_iff Before_irrefl lexordp_irreflexive')
  show "Less a c" if "Less a b \<and> Less b c"
    using that unfolding Less_iff by (auto dest: lexordp_trans Before_trans)
  show "Less a b \<longleftrightarrow> \<not> Less b a"
    if key: "(NextTime a, Priority a, TxID a) \<noteq> (NextTime b, Priority b, TxID b)"
  proof -
    consider (time) "NextTime a \<noteq> NextTime b"
      | (priority) "NextTime a = NextTime b" "Priority a \<noteq> Priority b"
      | (txid) "NextTime a = NextTime b" "Priority a = Priority b" "TxID a \<noteq> TxID b"
      using key by auto
    then show ?thesis
    proof cases
      case time
      then show ?thesis
        using Before_total[of "NextTime a" "NextTime b"] Before_asym[of "NextTime a" "NextTime b"]
          Before_asym[of "NextTime b" "NextTime a"]
        unfolding Less_iff by metis
    next
      case priority
      then show ?thesis unfolding Less_iff by (auto simp: Before_irrefl)
    next
      case txid
      then show ?thesis
        using lexordp_linear[of "TxID a" "TxID b"] lexordp_antisym[of "TxID a" "TxID b"]
        unfolding Less_iff by (auto simp: Before_irrefl)
    qed
  qed
  show "Less a b \<longleftrightarrow>
      Before (NextTime a) (NextTime b) \<or>
      (NextTime a = NextTime b \<and>
        (Priority a < Priority b \<or>
         (Priority a = Priority b \<and> ord_class.lexordp (TxID a) (TxID b))))"
    by (rule Less_iff)
qed

text \<open>
  Three stakers with equal \<open>NextTime\<close>: the first two differ in the last byte of the
  \<open>TxID\<close> only, the third has a larger \<open>Priority\<close> and a smaller \<open>TxID\<close>.
\<close>

theorem Less_strict_total_order_witness:
  "Less (zeroStaker\<lparr>TxID := [1, 2]\<rparr>) (zeroStaker\<lparr>TxID := [1, 3]\<rparr>) \<and>
   Less (zeroStaker\<lparr>TxID := [1, 3]\<rparr>) (zeroStaker\<lparr>TxID := [0], Priority := 4\<rparr>) \<and>
   Less (zeroStaker\<lparr>TxID := [1, 2]\<rparr>) (zeroStaker\<lparr>TxID := [0], Priority := 4\<rparr>) \<and>
   \<not> Less (zeroStaker\<lparr>TxID := [1, 3]\<rparr>) (zeroStaker\<lparr>TxID := [1, 2]\<rparr>)"
  using Less_strict_total_order
    [of "zeroStaker\<lparr>TxID := [1, 2]\<rparr>" "zeroStaker\<lparr>TxID := [1, 3]\<rparr>"
        "zeroStaker\<lparr>TxID := [0], Priority := 4\<rparr>"]
  by (simp add: zeroStaker_def Less_def Before_def)

text \<open>
  C2. The diff codec round-trips: decoding the key encoded from a subnet identifier, a
  height and a node identifier succeeds and returns exactly these three, the height
  un-flipped; decoding the value encoded from a weight diff succeeds and returns a diff
  with the same \<open>Decrease\<close> flag and \<open>Amount\<close>. The subnet identifier is an \<open>ids.ID\<close>,
  that is 32 bytes.
\<close>

theorem diff_codec_round_trip:
  fixes diff :: ValidatorWeightDiff
  assumes "length subnetID = IDLen"
  shows "unmarshalDiffKey (marshalDiffKey subnetID height nodeID) = Inr (subnetID, height, nodeID) \<and>
         unmarshalWeightDiff (marshalWeightDiff diff) = Inr diff"
proof
  show "unmarshalDiffKey (marshalDiffKey subnetID height nodeID) = Inr (subnetID, height, nodeID)"
    by (simp only: marshalDiffKey_layout[OF assms] unmarshalDiffKey_layout[OF assms] word_not_not)
  show "unmarshalWeightDiff (marshalWeightDiff diff) = Inr diff"
    by (simp add: marshalWeightDiff_layout unmarshalWeightDiff_layout)
qed

text \<open>
  The key of subnet \<open>07..07\<close>, height 5 and node \<open>09..09\<close>, and the value of a decrease by
  258, byte by byte.
\<close>

theorem diff_codec_round_trip_witness:
  "length (replicate 32 (7 :: byte)) = IDLen \<and>
   marshalDiffKey (replicate 32 7) 5 (replicate 20 9) =
     replicate 32 7 @ [255, 255, 255, 255, 255, 255, 255, 250] @ replicate 20 9 \<and>
   unmarshalDiffKey (replicate 32 7 @ [255, 255, 255, 255, 255, 255, 255, 250] @ replicate 20 9) =
     Inr (replicate 32 7, 5, replicate 20 9) \<and>
   marshalWeightDiff \<lparr> Decrease = True, Amount = 258 \<rparr> = [1, 0, 0, 0, 0, 0, 0, 1, 2] \<and>
   unmarshalWeightDiff [1, 0, 0, 0, 0, 0, 0, 1, 2] = Inr \<lparr> Decrease = True, Amount = 258 \<rparr>"
proof -
  have len: "length (replicate 32 (7 :: byte)) = IDLen" by (simp add: IDLen_def)
  have k: "marshalDiffKey (replicate 32 7) 5 (replicate 20 9) =
     replicate 32 7 @ [255, 255, 255, 255, 255, 255, 255, 250] @ replicate 20 9"
    by (simp add: marshalDiffKey_layout[OF len] PutUint64_def)
  have v: "marshalWeightDiff \<lparr> Decrease = True, Amount = 258 \<rparr> = [1, 0, 0, 0, 0, 0, 0, 1, 2]"
    by (simp add: marshalWeightDiff_layout PutUint64_def)
  show ?thesis
    using diff_codec_round_trip[OF len, of 5 "replicate 20 9" "\<lparr> Decrease = True, Amount = 258 \<rparr>"]
    by (simp only: len k v simp_thms)
qed

text \<open>
  C3. Encoded keys sort in descending height order: for the same subnet and node and
  heights \<open>h1 < h2\<close>, the key of \<open>h1\<close> is lexicographically strictly greater than the
  key of \<open>h2\<close>, because the 8 bytes after the subnet identifier hold the bitwise
  complement of the height in big-endian form, that is the number \<open>2^64 - 1 - height\<close>.
\<close>

theorem marshalDiffKey_descending_heights:
  assumes "length subnetID = IDLen" and "h1 < h2"
  shows "bytes_Compare (marshalDiffKey subnetID h1 nodeID) (marshalDiffKey subnetID h2 nodeID) = 1 \<and>
         ord_class.lexordp (marshalDiffKey subnetID h2 nodeID) (marshalDiffKey subnetID h1 nodeID) \<and>
         be_nat (take Uint64Size (drop IDLen (marshalDiffKey subnetID h1 nodeID))) = 2 ^ 64 - 1 - unat h1 \<and>
         be_nat (take Uint64Size (drop IDLen (marshalDiffKey subnetID h2 nodeID))) = 2 ^ 64 - 1 - unat h2"
proof -
  have c: "bytes_Compare (marshalDiffKey subnetID h1 nodeID) (marshalDiffKey subnetID h2 nodeID) = 1"
    using assms by (rule marshalDiffKey_descending)
  have f: "be_nat (take Uint64Size (drop IDLen (marshalDiffKey subnetID h nodeID))) = 2 ^ 64 - 1 - unat h" for h
    using assms(1)
    by (simp add: marshalDiffKey_layout[OF assms(1)] Uint64Size_def length_PutUint64_Nil
        be_nat_PutUint64 unat_NOT_uint64)
  from c f show ?thesis by (simp add: bytes_Compare_flip)
qed

text \<open>Heights 1 and 256 under the same subnet and node.\<close>

theorem marshalDiffKey_descending_heights_witness:
  "length (replicate 32 (7 :: byte)) = IDLen \<and> (1 :: uint64) < 256 \<and>
   marshalDiffKey (replicate 32 7) 1 [9] = replicate 32 7 @ [255, 255, 255, 255, 255, 255, 255, 254, 9] \<and>
   marshalDiffKey (replicate 32 7) 256 [9] = replicate 32 7 @ [255, 255, 255, 255, 255, 255, 254, 255, 9] \<and>
   bytes_Compare (replicate 32 7 @ [255, 255, 255, 255, 255, 255, 255, 254, 9])
     (replicate 32 7 @ [255, 255, 255, 255, 255, 255, 254, 255, 9]) = 1"
proof -
  have len: "length (replicate 32 (7 :: byte)) = IDLen" by (simp add: IDLen_def)
  have lt: "(1 :: uint64) < 256" by simp
  have k1: "marshalDiffKey (replicate 32 7) 1 [9] = replicate 32 7 @ [255, 255, 255, 255, 255, 255, 255, 254, 9]"
    by (simp add: marshalDiffKey_layout[OF len] PutUint64_def)
  have k2: "marshalDiffKey (replicate 32 7) 256 [9] = replicate 32 7 @ [255, 255, 255, 255, 255, 255, 254, 255, 9]"
    by (simp add: marshalDiffKey_layout[OF len] PutUint64_def)
  show ?thesis
    using marshalDiffKey_descending_heights[OF len lt, of "[9]"]
    by (simp only: len lt k1 k2 simp_thms)
qed

text \<open>
  C4, as claimed: every input of 59 bytes makes \<open>unmarshalDiffKey\<close> return the
  malformed-key error. The guard of \<open>unmarshalDiffKey\<close> compares the length with
  \<open>startDiffKeyLength\<close>, which is 40, so 59 zero bytes decode without error: to the
  subnet of 32 zero bytes, the height whose complement is 0, and a node identity of the
  19 bytes left.
\<close>

theorem unmarshalDiffKey_length_59_counterexample:
  "length (replicate 59 (0 :: byte)) = 59 \<and>
   unmarshalDiffKey (replicate 59 0) = Inr (replicate 32 0, - 1, replicate 19 0)"
  by (simp add: unmarshalDiffKey_def startDiffKeyLength_def diffKeyNodeIDOffset_def IDLen_def
      Uint64Size_def Let_def copy_bytes_def unpackIterableHeight_def NodeIDFromBytes_def
      numeral_eq_Suc)

text \<open>
  C4, amended. \<open>unmarshalDiffKey\<close> returns the malformed-key error, and no subnet, height
  or node identity, for every input shorter than the 40 bytes of a start key (32 bytes
  of subnet identifier and 8 bytes of flipped height). Every input longer than 40 bytes,
  one of 59 bytes among them, decodes without error: the first 32 bytes are the subnet
  identifier, the complement of the next 8 bytes read big-endian is the height, and all
  bytes from offset 40 on are the node identity.
\<close>

theorem unmarshalDiffKey_rejects_short_keys_only:
  "(length key < startDiffKeyLength \<longrightarrow>
      unmarshalDiffKey key = Inl errUnexpectedZeroLenghtNodeID) \<and>
   (startDiffKeyLength < length key \<longrightarrow>
      (\<exists>v. Uint64 (drop IDLen key) = Some v \<and>
           unmarshalDiffKey key = Inr (take IDLen key, NOT v, drop diffKeyNodeIDOffset key))) \<and>
   startDiffKeyLength = 40"
proof (intro conjI impI)
  show "unmarshalDiffKey key = Inl errUnexpectedZeroLenghtNodeID"
    if "length key < startDiffKeyLength"
    using that by (simp add: unmarshalDiffKey_def)
  show "\<exists>v. Uint64 (drop IDLen key) = Some v \<and>
           unmarshalDiffKey key = Inr (take IDLen key, NOT v, drop diffKeyNodeIDOffset key)"
    if long: "startDiffKeyLength < length key"
  proof -
    have "8 \<le> length (drop IDLen key)"
      using long by (simp add: startDiffKeyLength_def IDLen_def Uint64Size_def)
    then obtain v where v: "Uint64 (drop IDLen key) = Some v"
      using Uint64_total by blast
    have "copy_bytes (replicate IDLen 0) key = take IDLen key"
      using long by (simp add: copy_bytes_def startDiffKeyLength_def)
    with v long show ?thesis
      by (simp add: unmarshalDiffKey_def unpackIterableHeight_def NodeIDFromBytes_def Let_def)
  qed
  show "startDiffKeyLength = 40"
    by (simp add: startDiffKeyLength_def IDLen_def Uint64Size_def)
qed

text \<open>A key of 39 bytes, and a key of 41 bytes holding height 5 and the node \<open>09\<close>.\<close>

theorem unmarshalDiffKey_rejects_short_keys_only_witness:
  "length (replicate 39 (3 :: byte)) < startDiffKeyLength \<and>
   unmarshalDiffKey (replicate 39 3) = Inl errUnexpectedZeroLenghtNodeID \<and>
   startDiffKeyLength < length (replicate 32 (1 :: byte) @ [255, 255, 255, 255, 255, 255, 255, 250, 9]) \<and>
   unmarshalDiffKey (replicate 32 1 @ [255, 255, 255, 255, 255, 255, 255, 250, 9]) =
     Inr (replicate 32 1, 5, [9])"
proof -
  let ?k = "replicate 32 (1 :: byte) @ [255, 255, 255, 255, 255, 255, 255, 250, 9]"
  have s: "startDiffKeyLength = 40"
    by (simp add: startDiffKeyLength_def IDLen_def Uint64Size_def)
  have d: "drop IDLen ?k = [255, 255, 255, 255, 255, 255, 255, 250, 9]"
    by (simp add: IDLen_def)
  have "Uint64 [255, 255, 255, 255, 255, 255, 255, 250, 9] = Some (NOT 5)"
    by code_simp
  with d have u: "Uint64 (drop IDLen ?k) = Some (NOT 5)" by (simp only:)
  have t: "take IDLen ?k = replicate 32 1" "drop diffKeyNodeIDOffset ?k = [9]"
    by (simp_all add: IDLen_def diffKeyNodeIDOffset_def Uint64Size_def)
  have l: "length (replicate 39 (3 :: byte)) < startDiffKeyLength" "startDiffKeyLength < length ?k"
    by (simp_all add: s)
  from unmarshalDiffKey_rejects_short_keys_only[of "replicate 39 3"] l(1)
  have a: "unmarshalDiffKey (replicate 39 3) = Inl errUnexpectedZeroLenghtNodeID" by blast
  from unmarshalDiffKey_rejects_short_keys_only[of ?k] l(2)
  obtain v where "Uint64 (drop IDLen ?k) = Some v"
    "unmarshalDiffKey ?k = Inr (take IDLen ?k, NOT v, drop diffKeyNodeIDOffset ?k)" by blast
  with u t have b: "unmarshalDiffKey ?k = Inr (replicate 32 1, 5, [9])" by simp
  from l a b show ?thesis by (intro conjI)
qed

text \<open>
  C5, as claimed: the record that \<open>NewCurrentStaker\<close> returns has \<open>NextTime\<close> equal to
  \<open>startTime + StakingPeriod\<close>. It does not when that instant is beyond the second
  counter: \<open>Add\<close> saturates. With the start time at the last second of the counter (the
  instant \<open>time.Unix(1<<63-62135596801, 0)\<close>) and a period of one second, \<open>NextTime\<close> is
  the start time itself.
\<close>

theorem NewCurrentStaker_NextTime_counterexample:
  "NewCurrentStaker (Time (2 ^ 63 - 1) 0) [1]
     \<lparr> stk_PublicKey = (Some [8], True, None :: string option), stk_NodeID = [2],
       stk_SubnetID = [3], stk_Weight = 4, stk_StakingPeriod = 1000000000,
       stk_CurrentPriority = 6 \<rparr> (Time (2 ^ 63 - 1) 0) 9 =
     Inr \<lparr> TxID = [1], NodeID = [2], PublicKey = Some [8], SubnetID = [3], Weight = 4,
           StartTime = Time (2 ^ 63 - 1) 0, StakingPeriod = 1000000000,
           EndTime = Time (2 ^ 63 - 1) 0, PotentialReward = 9,
           NextTime = Time (2 ^ 63 - 1) 0, Priority = 6 \<rparr> \<and>
   wf_Time (Time (2 ^ 63 - 1) 0) \<and> wf_Duration 1000000000 \<and>
   nanos (Time (2 ^ 63 - 1) 0) \<noteq> nanos (Time (2 ^ 63 - 1) 0) + 1000000000"
  by (simp add: NewCurrentStaker_def Add_def quo_def rem_def addSec_def wrap64_def Let_def
      wf_Time_def wf_Duration_def nanos_def)

text \<open>
  C5, amended. \<open>NewCurrentStaker\<close> returns an error exactly when \<open>PublicKey()\<close> of the
  staker argument returns one, and then it is that error and no record. Otherwise the
  record it returns has \<open>EndTime\<close> equal to \<open>mockable.MaxTime\<close>, \<open>StartTime\<close> equal to the
  start time given, \<open>NextTime\<close> equal to \<open>startTime.Add(StakingPeriod)\<close>, which is the
  instant \<open>startTime + StakingPeriod\<close> whenever a \<open>time.Time\<close> can hold that instant, and
  \<open>TxID\<close>, \<open>NodeID\<close>, \<open>SubnetID\<close>, \<open>Weight\<close>, \<open>StakingPeriod\<close> and \<open>PotentialReward\<close> from
  the arguments.
\<close>

theorem NewCurrentStaker_result:
  fixes staker :: "'e txs_Staker"
  assumes "stk_PublicKey staker = (publicKey, ok, err)"
  shows
    "((\<exists>e. NewCurrentStaker MaxTime txID staker startTime potentialReward = Inl e) \<longleftrightarrow>
        (\<exists>e. err = Some e)) \<and>
     (\<forall>e. err = Some e \<longrightarrow>
        NewCurrentStaker MaxTime txID staker startTime potentialReward = Inl e) \<and>
     (err = None \<longrightarrow>
        (\<exists>r. NewCurrentStaker MaxTime txID staker startTime potentialReward = Inr r \<and>
           EndTime r = MaxTime \<and> StartTime r = startTime \<and>
           NextTime r = Add startTime (stk_StakingPeriod staker) \<and>
           (wf_Time startTime \<and> wf_Duration (stk_StakingPeriod staker) \<and>
            representable (nanos startTime + stk_StakingPeriod staker) \<longrightarrow>
              wf_Time (NextTime r) \<and>
              nanos (NextTime r) = nanos startTime + stk_StakingPeriod staker) \<and>
           TxID r = txID \<and> NodeID r = stk_NodeID staker \<and> SubnetID r = stk_SubnetID staker \<and>
           Weight r = stk_Weight staker \<and> StakingPeriod r = stk_StakingPeriod staker \<and>
           PotentialReward r = potentialReward \<and>
           PublicKey r = publicKey \<and> Priority r = stk_CurrentPriority staker))"
  using assms Add_cases(1,2)[of startTime "stk_StakingPeriod staker"]
  by (cases err) (simp_all add: NewCurrentStaker_def Let_def)

text \<open>
  A staker whose \<open>PublicKey()\<close> fails, and the same staker with a key and no error: the
  start time is one nanosecond before second 101 and the period is 50 seconds and 2
  nanoseconds.
\<close>

theorem NewCurrentStaker_result_witness:
  "NewCurrentStaker (Time (2 ^ 63 - 1) 0) [1]
     \<lparr> stk_PublicKey = (None, False, Some ''no key''), stk_NodeID = [2],
       stk_SubnetID = [3], stk_Weight = 4, stk_StakingPeriod = 50000000002,
       stk_CurrentPriority = 6 \<rparr> (Time 100 999999999) 9 = Inl ''no key'' \<and>
   wf_Time (Time 100 999999999) \<and> wf_Duration 50000000002 \<and>
   representable (nanos (Time 100 999999999) + 50000000002) \<and>
   NewCurrentStaker (Time (2 ^ 63 - 1) 0) [1]
     \<lparr> stk_PublicKey = (Some [8], True, None :: string option), stk_NodeID = [2],
       stk_SubnetID = [3], stk_Weight = 4, stk_StakingPeriod = 50000000002,
       stk_CurrentPriority = 6 \<rparr> (Time 100 999999999) 9 =
     Inr \<lparr> TxID = [1], NodeID = [2], PublicKey = Some [8], SubnetID = [3], Weight = 4,
           StartTime = Time 100 999999999, StakingPeriod = 50000000002,
           EndTime = Time (2 ^ 63 - 1) 0, PotentialReward = 9,
           NextTime = Time 151 1, Priority = 6 \<rparr> \<and>
   nanos (Time 151 1) = nanos (Time 100 999999999) + 50000000002"
  using NewCurrentStaker_result
    [of "\<lparr> stk_PublicKey = (None, False, Some ''no key''), stk_NodeID = [2],
       stk_SubnetID = [3], stk_Weight = 4, stk_StakingPeriod = 50000000002,
       stk_CurrentPriority = 6 \<rparr>"
      None False "Some ''no key''" "Time (2 ^ 63 - 1) 0" "[1]" "Time 100 999999999" 9]
    NewCurrentStaker_result
    [of "\<lparr> stk_PublicKey = (Some [8], True, None :: string option), stk_NodeID = [2],
       stk_SubnetID = [3], stk_Weight = 4, stk_StakingPeriod = 50000000002,
       stk_CurrentPriority = 6 \<rparr>"
      "Some [8]" True None "Time (2 ^ 63 - 1) 0" "[1]" "Time 100 999999999" 9]
  by (simp add: NewCurrentStaker_def Add_def quo_def rem_def addSec_def wrap64_def Let_def
      wf_Time_def wf_Duration_def nanos_def representable_def)

text \<open>
  C6, as claimed: a staker that is shifted has \<open>StartTime + StakingPeriod\<close> and
  \<open>NextTime + StakingPeriod\<close> for its new times. A current staker whose \<open>NextTime\<close> is 10
  seconds before the last second of the counter, with a period of 100 seconds, gets the
  last second of the counter for its new \<open>NextTime\<close>: 10 seconds ahead, not 100.
\<close>

theorem ShiftStakerAheadInPlace_counterexample:
  "ShiftStakerAheadInPlace (\<lambda>p. p \<le> 6)
     (zeroStaker \<lparr> Priority := 11, StartTime := Time (2 ^ 63 - 111) 0,
        StakingPeriod := 100000000000, NextTime := Time (2 ^ 63 - 11) 0,
        EndTime := Time (2 ^ 63 - 1) 0 \<rparr>) =
     zeroStaker \<lparr> Priority := 11, StartTime := Time (2 ^ 63 - 11) 0,
        StakingPeriod := 100000000000, NextTime := Time (2 ^ 63 - 1) 0,
        EndTime := Time (2 ^ 63 - 1) 0 \<rparr> \<and>
   wf_Time (Time (2 ^ 63 - 11) 0) \<and> wf_Duration 100000000000 \<and>
   nanos (Time (2 ^ 63 - 1) 0) = nanos (Time (2 ^ 63 - 11) 0) + 10000000000 \<and>
   nanos (Time (2 ^ 63 - 1) 0) \<noteq> nanos (Time (2 ^ 63 - 11) 0) + 100000000000"
  by (simp add: ShiftStakerAheadInPlace_def zeroStaker_def Equal_def Add_def quo_def rem_def
      addSec_def wrap64_def Let_def wf_Time_def wf_Duration_def nanos_def)

text \<open>
  C6, amended. \<open>ShiftStakerAheadInPlace\<close> leaves the record as it is when the priority is
  a pending one or when \<open>NextTime\<close> equals \<open>EndTime\<close>. In every other case it sets
  \<open>StartTime\<close> to \<open>StartTime.Add(StakingPeriod)\<close> and \<open>NextTime\<close> to
  \<open>NextTime.Add(StakingPeriod)\<close>, which are the instants \<open>StartTime + StakingPeriod\<close> and
  \<open>NextTime + StakingPeriod\<close> whenever a \<open>time.Time\<close> can hold them, and no other field
  changes.
\<close>

theorem ShiftStakerAheadInPlace_result:
  "(IsPending (Priority s) \<or> NextTime s = EndTime s \<longrightarrow> ShiftStakerAheadInPlace IsPending s = s) \<and>
   (\<not> (IsPending (Priority s) \<or> NextTime s = EndTime s) \<longrightarrow>
      ShiftStakerAheadInPlace IsPending s =
        s \<lparr> StartTime := Add (StartTime s) (StakingPeriod s),
            NextTime := Add (NextTime s) (StakingPeriod s) \<rparr> \<and>
      (wf_Time (StartTime s) \<and> wf_Duration (StakingPeriod s) \<and>
       representable (nanos (StartTime s) + StakingPeriod s) \<longrightarrow>
         wf_Time (StartTime (ShiftStakerAheadInPlace IsPending s)) \<and>
         nanos (StartTime (ShiftStakerAheadInPlace IsPending s)) =
           nanos (StartTime s) + StakingPeriod s) \<and>
      (wf_Time (NextTime s) \<and> wf_Duration (StakingPeriod s) \<and>
       representable (nanos (NextTime s) + StakingPeriod s) \<longrightarrow>
         wf_Time (NextTime (ShiftStakerAheadInPlace IsPending s)) \<and>
         nanos (NextTime (ShiftStakerAheadInPlace IsPending s)) =
           nanos (NextTime s) + StakingPeriod s) \<and>
      TxID (ShiftStakerAheadInPlace IsPending s) = TxID s \<and>
      NodeID (ShiftStakerAheadInPlace IsPending s) = NodeID s \<and>
      PublicKey (ShiftStakerAheadInPlace IsPending s) = PublicKey s \<and>
      SubnetID (ShiftStakerAheadInPlace IsPending s) = SubnetID s \<and>
      Weight (ShiftStakerAheadInPlace IsPending s) = Weight s \<and>
      StakingPeriod (ShiftStakerAheadInPlace IsPending s) = StakingPeriod s \<and>
      EndTime (ShiftStakerAheadInPlace IsPending s) = EndTime s \<and>
      PotentialReward (ShiftStakerAheadInPlace IsPending s) = PotentialReward s \<and>
      Priority (ShiftStakerAheadInPlace IsPending s) = Priority s)"
  using Add_cases(1,2)[of "StartTime s" "StakingPeriod s"]
    Add_cases(1,2)[of "NextTime s" "StakingPeriod s"]
  by (simp add: ShiftStakerAheadInPlace_def Equal_def Time.expand)

text \<open>
  With the priorities up to 6 pending: a pending staker, a current staker that reached
  its end time, and a current staker that is shifted by its period of 1000 seconds.
\<close>

theorem ShiftStakerAheadInPlace_result_witness:
  "ShiftStakerAheadInPlace (\<lambda>p. p \<le> 6)
     (zeroStaker \<lparr> Priority := 3, StakingPeriod := 1000000000000, EndTime := Time 9 0 \<rparr>) =
     zeroStaker \<lparr> Priority := 3, StakingPeriod := 1000000000000, EndTime := Time 9 0 \<rparr> \<and>
   ShiftStakerAheadInPlace (\<lambda>p. p \<le> 6) (zeroStaker \<lparr> Priority := 11, StakingPeriod := 1000000000000 \<rparr>) =
     zeroStaker \<lparr> Priority := 11, StakingPeriod := 1000000000000 \<rparr> \<and>
   wf_Time (Time 5 0) \<and> wf_Time (Time 1005 0) \<and> wf_Duration 1000000000000 \<and>
   representable (nanos (Time 5 0) + 1000000000000) \<and>
   representable (nanos (Time 1005 0) + 1000000000000) \<and>
   ShiftStakerAheadInPlace (\<lambda>p. p \<le> 6)
     (zeroStaker \<lparr> Priority := 11, StartTime := Time 5 0, StakingPeriod := 1000000000000,
        NextTime := Time 1005 0, EndTime := Time 50000 0 \<rparr>) =
     zeroStaker \<lparr> Priority := 11, StartTime := Time 1005 0, StakingPeriod := 1000000000000,
        NextTime := Time 2005 0, EndTime := Time 50000 0 \<rparr>"
  using ShiftStakerAheadInPlace_result
      [of "\<lambda>p. p \<le> 6"
        "zeroStaker \<lparr> Priority := 3, StakingPeriod := 1000000000000, EndTime := Time 9 0 \<rparr>"]
    ShiftStakerAheadInPlace_result
      [of "\<lambda>p. p \<le> 6" "zeroStaker \<lparr> Priority := 11, StakingPeriod := 1000000000000 \<rparr>"]
    ShiftStakerAheadInPlace_result
      [of "\<lambda>p. p \<le> 6"
        "zeroStaker \<lparr> Priority := 11, StartTime := Time 5 0, StakingPeriod := 1000000000000,
           NextTime := Time 1005 0, EndTime := Time 50000 0 \<rparr>"]
  by (simp add: ShiftStakerAheadInPlace_def zeroStaker_def Equal_def Add_def quo_def rem_def
      addSec_def wrap64_def Let_def wf_Time_def wf_Duration_def nanos_def representable_def)

text \<open>
  C7, as claimed: the new \<open>EndTime\<close> is the smallest instant
  \<open>NextTime + k * StakingPeriod\<close> that is not before the stop time. With \<open>NextTime\<close> 10
  seconds before the last second of the counter, a period of 100 seconds, \<open>EndTime\<close> at
  that last second and the stop time 5 seconds before it, this instant is
  \<open>NextTime + 1 * StakingPeriod\<close>, beyond the counter; \<open>Add\<close> saturates and \<open>EndTime\<close> stays
  at the last second, 10 seconds after \<open>NextTime\<close>.
\<close>

theorem MarkStakerForRemovalInPlaceBeforeTime_boundary_counterexample:
  "0 < StakingPeriod (zeroStaker \<lparr> StakingPeriod := 100000000000,
        NextTime := Time (2 ^ 63 - 11) 0, EndTime := Time (2 ^ 63 - 1) 0 \<rparr>) \<and>
   Before (Time (2 ^ 63 - 6) 0) (Time (2 ^ 63 - 1) 0) \<and>
   MarkStakerForRemovalInPlaceBeforeTime
     (zeroStaker \<lparr> StakingPeriod := 100000000000,
        NextTime := Time (2 ^ 63 - 11) 0, EndTime := Time (2 ^ 63 - 1) 0 \<rparr>)
     (Time (2 ^ 63 - 6) 0) =
     Some (zeroStaker \<lparr> StakingPeriod := 100000000000,
        NextTime := Time (2 ^ 63 - 11) 0, EndTime := Time (2 ^ 63 - 1) 0 \<rparr>) \<and>
   nanos (Time (2 ^ 63 - 11) 0) + 0 * 100000000000 < nanos (Time (2 ^ 63 - 6) 0) \<and>
   nanos (Time (2 ^ 63 - 6) 0) \<le> nanos (Time (2 ^ 63 - 11) 0) + 1 * 100000000000 \<and>
   nanos (Time (2 ^ 63 - 1) 0) \<noteq> nanos (Time (2 ^ 63 - 11) 0) + 1 * 100000000000"
  by (simp add: MarkStakerForRemovalInPlaceBeforeTime_def walk_end.simps zeroStaker_def
      Before_def Add_def quo_def rem_def addSec_def wrap64_def Let_def nanos_def)

text \<open>
  C7, amended. For a staker with a positive \<open>StakingPeriod\<close>: when the stop time is before
  \<open>EndTime\<close> and a \<open>time.Time\<close> can hold the smallest instant
  \<open>NextTime + k * StakingPeriod\<close> (\<open>k\<close> a natural number) that is not before the stop time,
  \<open>MarkStakerForRemovalInPlaceBeforeTime\<close> returns and sets \<open>EndTime\<close> to that instant, and
  changes nothing else; when the stop time is not before \<open>EndTime\<close> the record stays as it
  is. With \<open>NextTime = T\<close>, a period of 100, \<open>EndTime = T + 10000\<close> and the stop time
  \<open>T + 250\<close>, in any unit \<open>u\<close> of time, the new \<open>EndTime\<close> is \<open>T + 300\<close>.
\<close>

theorem MarkStakerForRemovalInPlaceBeforeTime_boundary:
  assumes "wf_Time (NextTime s)" and "wf_Time (EndTime s)" and "wf_Time stopTime"
    and "wf_Duration (StakingPeriod s)" and "0 < StakingPeriod s"
  shows
    "(Before stopTime (EndTime s) \<longrightarrow>
        (\<exists>k::nat.
           nanos stopTime \<le> nanos (NextTime s) + int k * StakingPeriod s \<and>
           (\<forall>j::nat. nanos stopTime \<le> nanos (NextTime s) + int j * StakingPeriod s \<longrightarrow>
              nanos (NextTime s) + int k * StakingPeriod s \<le>
              nanos (NextTime s) + int j * StakingPeriod s) \<and>
           (representable (nanos (NextTime s) + int k * StakingPeriod s) \<longrightarrow>
              (\<exists>e. wf_Time e \<and> nanos e = nanos (NextTime s) + int k * StakingPeriod s \<and>
                 MarkStakerForRemovalInPlaceBeforeTime s stopTime = Some (s \<lparr> EndTime := e \<rparr>))))) \<and>
     (\<not> Before stopTime (EndTime s) \<longrightarrow> MarkStakerForRemovalInPlaceBeforeTime s stopTime = Some s) \<and>
     (0 < u \<and> StakingPeriod s = 100 * u \<and> nanos (EndTime s) = nanos (NextTime s) + 10000 * u \<and>
      nanos stopTime = nanos (NextTime s) + 250 * u \<longrightarrow>
        (\<exists>e. wf_Time e \<and> nanos e = nanos (NextTime s) + 300 * u \<and>
           MarkStakerForRemovalInPlaceBeforeTime s stopTime = Some (s \<lparr> EndTime := e \<rparr>)))"
proof (intro conjI impI)
  let ?p = "StakingPeriod s" and ?n = "nanos (NextTime s)"
  note steps = walk_end_steps[OF assms(4,5,3,1)]
  show "\<exists>k::nat.
           nanos stopTime \<le> ?n + int k * ?p \<and>
           (\<forall>j::nat. nanos stopTime \<le> ?n + int j * ?p \<longrightarrow> ?n + int k * ?p \<le> ?n + int j * ?p) \<and>
           (representable (?n + int k * ?p) \<longrightarrow>
              (\<exists>e. wf_Time e \<and> nanos e = ?n + int k * ?p \<and>
                 MarkStakerForRemovalInPlaceBeforeTime s stopTime = Some (s \<lparr> EndTime := e \<rparr>)))"
    if before: "Before stopTime (EndTime s)"
  proof -
    from least_period_exists[OF assms(5), of "nanos stopTime" ?n] obtain k :: nat where
      k: "nanos stopTime \<le> ?n + int k * ?p" "\<forall>j<k. ?n + int j * ?p < nanos stopTime" by blast
    have least: "?n + int k * ?p \<le> ?n + int j * ?p" if "nanos stopTime \<le> ?n + int j * ?p" for j :: nat
    proof -
      have "\<not> j < k" using k(2) that by auto
      then have "int k \<le> int j" by simp
      then have "int k * ?p \<le> int j * ?p" using assms(5) by (intro mult_right_mono) simp_all
      then show ?thesis by simp
    qed
    have m: "\<exists>e. wf_Time e \<and> nanos e = ?n + int k * ?p \<and>
        MarkStakerForRemovalInPlaceBeforeTime s stopTime = Some (s \<lparr> EndTime := e \<rparr>)"
      if r: "representable (?n + int k * ?p)"
    proof -
      from steps[OF k r] obtain e where e: "wf_Time e" "nanos e = ?n + int k * ?p"
        "walk_end ?p stopTime (NextTime s) = Some e" by blast
      have "MarkStakerForRemovalInPlaceBeforeTime s stopTime = Some (s \<lparr> EndTime := e \<rparr>)"
        using before e(3) by (simp add: MarkStakerForRemovalInPlaceBeforeTime_def)
      with e(1,2) show ?thesis by blast
    qed
    from k(1) least m show ?thesis by blast
  qed
  show "MarkStakerForRemovalInPlaceBeforeTime s stopTime = Some s" if "\<not> Before stopTime (EndTime s)"
    using that by (simp add: MarkStakerForRemovalInPlaceBeforeTime_def)
  show "\<exists>e. wf_Time e \<and> nanos e = ?n + 300 * u \<and>
           MarkStakerForRemovalInPlaceBeforeTime s stopTime = Some (s \<lparr> EndTime := e \<rparr>)"
    if ex: "0 < u \<and> StakingPeriod s = 100 * u \<and> nanos (EndTime s) = ?n + 10000 * u \<and>
      nanos stopTime = ?n + 250 * u"
  proof -
    have before: "Before stopTime (EndTime s)"
      using ex Before_nanos[OF assms(3,2)] by simp
    have "representable (nanos (EndTime s))" "representable ?n"
      using assms(1,2) by (simp_all add: wf_Time_representable)
    then have r: "representable (?n + int 3 * ?p)"
      using ex unfolding representable_def by simp
    have "\<exists>e. wf_Time e \<and> nanos e = ?n + int 3 * ?p \<and> walk_end ?p stopTime (NextTime s) = Some e"
    proof (rule steps[OF _ _ r])
      show "nanos stopTime \<le> ?n + int 3 * ?p" using ex by simp
      show "\<forall>j<3. ?n + int j * ?p < nanos stopTime"
      proof (intro allI impI)
        fix j :: nat assume "j < 3"
        then have "j = 0 \<or> j = 1 \<or> j = 2" by auto
        then show "?n + int j * ?p < nanos stopTime" using ex by auto
      qed
    qed
    then obtain e where e: "wf_Time e" "nanos e = ?n + int 3 * ?p"
      "walk_end ?p stopTime (NextTime s) = Some e" by blast
    have "MarkStakerForRemovalInPlaceBeforeTime s stopTime = Some (s \<lparr> EndTime := e \<rparr>)"
      using before e(3) by (simp add: MarkStakerForRemovalInPlaceBeforeTime_def)
    moreover have "nanos e = ?n + 300 * u" using e(2) ex by simp
    ultimately show ?thesis using e(1) by blast
  qed
qed

text \<open>
  The example of the claim at second 7, in seconds, and a stop time that is not before
  \<open>EndTime\<close>.
\<close>

theorem MarkStakerForRemovalInPlaceBeforeTime_boundary_witness:
  "wf_Time (Time 7 0) \<and> wf_Time (Time 10007 0) \<and> wf_Time (Time 257 0) \<and>
   wf_Duration 100000000000 \<and>
   0 < StakingPeriod (zeroStaker \<lparr> StakingPeriod := 100000000000, EndTime := Time 10007 0,
         NextTime := Time 7 0 \<rparr>) \<and>
   Before (Time 257 0) (Time 10007 0) \<and>
   nanos (Time 257 0) \<le> nanos (Time 7 0) + int 3 * 100000000000 \<and>
   representable (nanos (Time 7 0) + int 3 * 100000000000) \<and>
   nanos (Time 307 0) = nanos (Time 7 0) + int 3 * 100000000000 \<and>
   MarkStakerForRemovalInPlaceBeforeTime
     (zeroStaker \<lparr> StakingPeriod := 100000000000, EndTime := Time 10007 0, NextTime := Time 7 0 \<rparr>)
     (Time 257 0) =
     Some (zeroStaker \<lparr> StakingPeriod := 100000000000, EndTime := Time 307 0, NextTime := Time 7 0 \<rparr>) \<and>
   MarkStakerForRemovalInPlaceBeforeTime
     (zeroStaker \<lparr> StakingPeriod := 100000000000, EndTime := Time 10007 0, NextTime := Time 7 0 \<rparr>)
     (Time 10007 0) =
     Some (zeroStaker \<lparr> StakingPeriod := 100000000000, EndTime := Time 10007 0, NextTime := Time 7 0 \<rparr>)"
proof -
  let ?s = "zeroStaker \<lparr> StakingPeriod := 100000000000, EndTime := Time 10007 0, NextTime := Time 7 0 \<rparr>"
  have f: "NextTime ?s = Time 7 0" "EndTime ?s = Time 10007 0" "StakingPeriod ?s = 100000000000"
    by simp_all
  have w: "wf_Time (NextTime ?s)" "wf_Time (EndTime ?s)" "wf_Time (Time 257 0)"
    "wf_Duration (StakingPeriod ?s)" "0 < StakingPeriod ?s"
    by (simp_all add: wf_Time_def wf_Duration_def)
  have w': "wf_Time (Time 10007 0)" "wf_Time (Time 7 0)" by (simp_all add: wf_Time_def)
  have h: "Before (Time 257 0) (Time 10007 0)"
    "nanos (Time 257 0) \<le> nanos (Time 7 0) + int 3 * 100000000000"
    "representable (nanos (Time 7 0) + int 3 * 100000000000)"
    "nanos (Time 307 0) = nanos (Time 7 0) + int 3 * 100000000000"
    by (simp_all add: Before_def nanos_def representable_def)
  have ex: "0 < (1000000000 :: int) \<and> StakingPeriod ?s = 100 * 1000000000 \<and>
      nanos (EndTime ?s) = nanos (NextTime ?s) + 10000 * 1000000000 \<and>
      nanos (Time 257 0) = nanos (NextTime ?s) + 250 * 1000000000"
    by (simp add: nanos_def)
  from MarkStakerForRemovalInPlaceBeforeTime_boundary[of ?s "Time 257 0" 1000000000, OF w] ex
  obtain e where e: "wf_Time e" "nanos e = nanos (NextTime ?s) + 300 * 1000000000"
    "MarkStakerForRemovalInPlaceBeforeTime ?s (Time 257 0) = Some (?s \<lparr> EndTime := e \<rparr>)"
    by blast
  have "e = Time 307 0"
  proof (rule nanos_inj[OF e(1)])
    show "wf_Time (Time 307 0)" by (simp add: wf_Time_def)
    show "nanos e = nanos (Time 307 0)" using e(2) by (simp add: nanos_def)
  qed
  with e(3) have a: "MarkStakerForRemovalInPlaceBeforeTime ?s (Time 257 0) =
     Some (zeroStaker \<lparr> StakingPeriod := 100000000000, EndTime := Time 307 0, NextTime := Time 7 0 \<rparr>)"
    by simp
  have "\<not> Before (Time 10007 0) (EndTime ?s)" by (simp add: Before_def)
  with MarkStakerForRemovalInPlaceBeforeTime_boundary
      [of ?s "Time 10007 0" 1000000000, OF w(1,2) w'(1) w(4,5)]
  have b: "MarkStakerForRemovalInPlaceBeforeTime ?s (Time 10007 0) = Some ?s" by blast
  from w(3,4,5) w' h a b show ?thesis by simp
qed

text \<open>
  C8, as claimed: a validator of the primary network gets the smaller of
  \<open>NextTime + StakingPeriod\<close> and \<open>EndTime\<close>. With \<open>NextTime\<close> 10 seconds before the last
  second of the counter, a period of 100 seconds and \<open>EndTime\<close> 999 nanoseconds into that
  last second, \<open>NextTime + StakingPeriod\<close> is after \<open>EndTime\<close>, so the smaller one is
  \<open>EndTime\<close>; the method returns the start of the last second, which is before \<open>EndTime\<close>.
\<close>

theorem EarliestStopTime_counterexample:
  "EarliestStopTime (\<lambda>p. p = 11) (replicate 32 0)
     (zeroStaker \<lparr> Priority := 11, StakingPeriod := 100000000000,
        NextTime := Time (2 ^ 63 - 11) 0, EndTime := Time (2 ^ 63 - 1) 999 \<rparr>) =
     Time (2 ^ 63 - 1) 0 \<and>
   wf_Time (Time (2 ^ 63 - 11) 0) \<and> wf_Time (Time (2 ^ 63 - 1) 999) \<and>
   wf_Duration 100000000000 \<and>
   nanos (Time (2 ^ 63 - 1) 999) < nanos (Time (2 ^ 63 - 11) 0) + 100000000000 \<and>
   nanos (Time (2 ^ 63 - 1) 0) < nanos (Time (2 ^ 63 - 1) 999)"
  by (simp add: EarliestStopTime_def zeroStaker_def Before_def Add_def quo_def rem_def
      addSec_def wrap64_def Let_def wf_Time_def wf_Duration_def nanos_def)

text \<open>
  C8, amended. \<open>EarliestStopTime\<close> returns the earlier of \<open>NextTime.Add(StakingPeriod)\<close> and
  \<open>EndTime\<close> for a staker with a validator priority on the primary network, which is the
  smaller of \<open>NextTime + StakingPeriod\<close> and \<open>EndTime\<close> whenever a \<open>time.Time\<close> can hold
  \<open>NextTime + StakingPeriod\<close>, and the smaller of \<open>NextTime\<close> and \<open>EndTime\<close> for every other
  staker. The result is never after \<open>EndTime\<close>. The method assigns to no field: its model
  is a function of the record that returns the instant only.
\<close>

theorem EarliestStopTime_result:
  assumes "wf_Time (NextTime s)" and "wf_Time (EndTime s)" and "wf_Duration (StakingPeriod s)"
  shows
    "(IsValidator (Priority s) \<and> SubnetID s = PrimaryNetworkID \<longrightarrow>
        nanos (EarliestStopTime IsValidator PrimaryNetworkID s) =
          min (nanos (Add (NextTime s) (StakingPeriod s))) (nanos (EndTime s)) \<and>
        (representable (nanos (NextTime s) + StakingPeriod s) \<longrightarrow>
           nanos (EarliestStopTime IsValidator PrimaryNetworkID s) =
             min (nanos (NextTime s) + StakingPeriod s) (nanos (EndTime s)))) \<and>
     (\<not> (IsValidator (Priority s) \<and> SubnetID s = PrimaryNetworkID) \<longrightarrow>
        nanos (EarliestStopTime IsValidator PrimaryNetworkID s) =
          min (nanos (NextTime s)) (nanos (EndTime s))) \<and>
     wf_Time (EarliestStopTime IsValidator PrimaryNetworkID s) \<and>
     \<not> Before (EndTime s) (EarliestStopTime IsValidator PrimaryNetworkID s)"
proof -
  let ?V = "IsValidator (Priority s) \<and> SubnetID s = PrimaryNetworkID"
  let ?r = "EarliestStopTime IsValidator PrimaryNetworkID s"
  define c where "c = (if ?V then Add (NextTime s) (StakingPeriod s) else NextTime s)"
  have wc: "wf_Time c" using assms(1) Add_cases(1)[OF assms(1,3)] by (simp add: c_def)
  have bc: "Before c (EndTime s) \<longleftrightarrow> nanos c < nanos (EndTime s)"
    using wc assms(2) by (rule Before_nanos)
  have e: "?r = (if Before c (EndTime s) then c else EndTime s)"
    by (simp add: EarliestStopTime_def Let_def c_def)
  have m: "nanos ?r = min (nanos c) (nanos (EndTime s))"
    unfolding e bc min_def by simp
  have w: "wf_Time ?r" unfolding e using wc assms(2) by simp
  have nb: "\<not> Before (EndTime s) ?r"
    unfolding e using Before_asym[of c "EndTime s"] by (simp add: Before_irrefl)
  have v1: "nanos ?r = min (nanos (Add (NextTime s) (StakingPeriod s))) (nanos (EndTime s))" if "?V"
    using m that by (simp add: c_def)
  have v2: "nanos ?r = min (nanos (NextTime s) + StakingPeriod s) (nanos (EndTime s))"
    if "?V" "representable (nanos (NextTime s) + StakingPeriod s)"
    using v1[OF that(1)] Add_cases(2)[OF assms(1,3) that(2)] by simp
  have v3: "nanos ?r = min (nanos (NextTime s)) (nanos (EndTime s))" if "\<not> ?V"
    using m that by (simp add: c_def)
  from v1 v2 v3 w nb show ?thesis by blast
qed

text \<open>
  With 11 the only validator priority and the all-zero identifier for the primary
  network: a primary-network validator, the same capped by its end time, a delegator, and
  a validator of another subnet.
\<close>

theorem EarliestStopTime_result_witness:
  "wf_Time (Time 500 0) \<and> wf_Time (Time 10000 0) \<and> wf_Time (Time 550 0) \<and>
   wf_Duration 100000000000 \<and>
   representable (nanos (Time 500 0) + 100000000000) \<and>
   EarliestStopTime (\<lambda>p. p = 11) (replicate 32 0)
     (zeroStaker \<lparr> Priority := 11, StakingPeriod := 100000000000, NextTime := Time 500 0,
        EndTime := Time 10000 0 \<rparr>) = Time 600 0 \<and>
   EarliestStopTime (\<lambda>p. p = 11) (replicate 32 0)
     (zeroStaker \<lparr> Priority := 11, StakingPeriod := 100000000000, NextTime := Time 500 0,
        EndTime := Time 550 0 \<rparr>) = Time 550 0 \<and>
   EarliestStopTime (\<lambda>p. p = 11) (replicate 32 0)
     (zeroStaker \<lparr> Priority := 10, StakingPeriod := 100000000000, NextTime := Time 500 0,
        EndTime := Time 10000 0 \<rparr>) = Time 500 0 \<and>
   EarliestStopTime (\<lambda>p. p = 11) (replicate 32 0)
     (zeroStaker \<lparr> Priority := 11, SubnetID := replicate 32 1, StakingPeriod := 100000000000,
        NextTime := Time 500 0, EndTime := Time 10000 0 \<rparr>) = Time 500 0"
proof -
  let ?E = "EarliestStopTime (\<lambda>p. p = 11) (replicate 32 0)"
  have w: "wf_Time (Time 500 0)" "wf_Time (Time 10000 0)" "wf_Time (Time 550 0)"
    "wf_Duration 100000000000" "representable (nanos (Time 500 0) + 100000000000)"
    by (simp_all add: wf_Time_def wf_Duration_def nanos_def representable_def)
  let ?a = "zeroStaker \<lparr> Priority := 11, StakingPeriod := 100000000000, NextTime := Time 500 0,
        EndTime := Time 10000 0 \<rparr>"
  let ?b = "zeroStaker \<lparr> Priority := 11, StakingPeriod := 100000000000, NextTime := Time 500 0,
        EndTime := Time 550 0 \<rparr>"
  let ?c = "zeroStaker \<lparr> Priority := 10, StakingPeriod := 100000000000, NextTime := Time 500 0,
        EndTime := Time 10000 0 \<rparr>"
  let ?d = "zeroStaker \<lparr> Priority := 11, SubnetID := replicate 32 1, StakingPeriod := 100000000000,
        NextTime := Time 500 0, EndTime := Time 10000 0 \<rparr>"
  have z: "SubnetID zeroStaker = replicate 32 0" by (simp add: zeroStaker_def)
  have ne: "replicate 32 (1 :: byte) \<noteq> replicate 32 0"
  proof
    assume "replicate 32 (1 :: byte) = replicate 32 0"
    then have "hd (replicate 32 (1 :: byte)) = hd (replicate 32 (0 :: byte))" by (simp only:)
    then show False by simp
  qed
  have a: "?E ?a = Time 600 0"
  proof -
    note T = EarliestStopTime_result[of ?a "\<lambda>p. p = 11" "replicate 32 0"]
    have "nanos (?E ?a) = min (nanos (NextTime ?a) + StakingPeriod ?a) (nanos (EndTime ?a))"
      using T z w by simp
    also have "\<dots> = nanos (Time 600 0)" by (simp add: nanos_def)
    finally have "nanos (?E ?a) = nanos (Time 600 0)" .
    moreover have "wf_Time (?E ?a)" using T w by simp
    moreover have "wf_Time (Time 600 0)" by (simp add: wf_Time_def)
    ultimately show ?thesis by (intro nanos_inj)
  qed
  have b: "?E ?b = Time 550 0"
  proof -
    note T = EarliestStopTime_result[of ?b "\<lambda>p. p = 11" "replicate 32 0"]
    have "nanos (?E ?b) = min (nanos (NextTime ?b) + StakingPeriod ?b) (nanos (EndTime ?b))"
      using T z w by simp
    also have "\<dots> = nanos (Time 550 0)" by (simp add: nanos_def)
    finally have "nanos (?E ?b) = nanos (Time 550 0)" .
    moreover have "wf_Time (?E ?b)" using T w by simp
    ultimately show ?thesis using w(3) by (intro nanos_inj)
  qed
  have c: "?E ?c = Time 500 0"
  proof -
    note T = EarliestStopTime_result[of ?c "\<lambda>p. p = 11" "replicate 32 0"]
    have "nanos (?E ?c) = min (nanos (NextTime ?c)) (nanos (EndTime ?c))"
      using T w by simp
    also have "\<dots> = nanos (Time 500 0)" by (simp add: nanos_def)
    finally have "nanos (?E ?c) = nanos (Time 500 0)" .
    moreover have "wf_Time (?E ?c)" using T w by simp
    ultimately show ?thesis using w(1) by (intro nanos_inj)
  qed
  have d: "?E ?d = Time 500 0"
  proof -
    note T = EarliestStopTime_result[of ?d "\<lambda>p. p = 11" "replicate 32 0"]
    have "nanos (?E ?d) = min (nanos (NextTime ?d)) (nanos (EndTime ?d))"
      using T w ne by simp
    also have "\<dots> = nanos (Time 500 0)" by (simp add: nanos_def)
    finally have "nanos (?E ?d) = nanos (Time 500 0)" .
    moreover have "wf_Time (?E ?d)" using T w by simp
    ultimately show ?thesis using w(1) by (intro nanos_inj)
  qed
  from w a b c d show ?thesis by simp
qed

text \<open>
  C9, as claimed: the record that \<open>NewPendingStaker\<close> returns has \<open>StakingPeriod\<close> equal
  to \<open>EndTime - StartTime\<close>. A \<open>time.Duration\<close> holds at most \<open>2^63 - 1\<close> nanoseconds, about
  292 years, and \<open>Sub\<close> saturates there: with an end time 9460800000 seconds (300 years
  of 365 days) after the start time, \<open>StakingPeriod\<close> is \<open>2^63 - 1\<close> nanoseconds.
\<close>

theorem NewPendingStaker_StakingPeriod_counterexample:
  "NewPendingStaker [1]
     \<lparr> pre_PublicKey = (None, False, None :: string option), pre_NodeID = [2],
       pre_SubnetID = [3], pre_Weight = 4, pre_StartTime = Time 100 0,
       pre_EndTime = Time 9460800100 0, pre_PendingPriority = 2 \<rparr> =
     Inr \<lparr> TxID = [1], NodeID = [2], PublicKey = None, SubnetID = [3], Weight = 4,
           StartTime = Time 100 0, StakingPeriod = 9223372036854775807,
           EndTime = Time 9460800100 0, PotentialReward = 0,
           NextTime = Time 100 0, Priority = 2 \<rparr> \<and>
   wf_Time (Time 100 0) \<and> wf_Time (Time 9460800100 0) \<and>
   nanos (Time 9460800100 0) - nanos (Time 100 0) = 9460800000000000000 \<and>
   (9223372036854775807 :: int) \<noteq> 9460800000000000000"
  by code_simp

text \<open>
  C9, amended. \<open>NewPendingStaker\<close> returns an error exactly when \<open>PublicKey()\<close> of the
  staker argument returns one. Otherwise the record it returns has \<open>StartTime\<close> and
  \<open>EndTime\<close> of the staker argument, \<open>NextTime\<close> equal to \<open>StartTime\<close>, and \<open>StakingPeriod\<close>
  equal to \<open>EndTime.Sub(StartTime)\<close>, which is \<open>EndTime - StartTime\<close> whenever that
  difference is a \<open>time.Duration\<close>, from \<open>-2^63\<close> to \<open>2^63 - 1\<close> nanoseconds, and the nearer
  of these two bounds otherwise.
\<close>

theorem NewPendingStaker_result:
  fixes staker :: "'e PreContinuousStakingStaker"
  assumes "pre_PublicKey staker = (publicKey, ok, err)"
  shows
    "((\<exists>e. NewPendingStaker txID staker = Inl e) \<longleftrightarrow> (\<exists>e. err = Some e)) \<and>
     (\<forall>e. err = Some e \<longrightarrow> NewPendingStaker txID staker = Inl e) \<and>
     (err = None \<longrightarrow>
        (\<exists>r. NewPendingStaker txID staker = Inr r \<and>
           StartTime r = pre_StartTime staker \<and> EndTime r = pre_EndTime staker \<and>
           NextTime r = StartTime r \<and>
           StakingPeriod r = Sub (EndTime r) (StartTime r) \<and>
           (wf_Time (StartTime r) \<and> wf_Time (EndTime r) \<longrightarrow>
              StakingPeriod r =
                (if 2 ^ 63 - 1 < nanos (EndTime r) - nanos (StartTime r) then 2 ^ 63 - 1
                 else if nanos (EndTime r) - nanos (StartTime r) < - (2 ^ 63) then - (2 ^ 63)
                 else nanos (EndTime r) - nanos (StartTime r))) \<and>
           TxID r = txID \<and> NodeID r = pre_NodeID staker \<and> SubnetID r = pre_SubnetID staker \<and>
           Weight r = pre_Weight staker \<and> PublicKey r = publicKey \<and>
           Priority r = pre_PendingPriority staker \<and> PotentialReward r = 0))"
proof -
  let ?t = "pre_EndTime staker" and ?u = "pre_StartTime staker"
  have s: "Sub ?t ?u =
      (if 2 ^ 63 - 1 < nanos ?t - nanos ?u then 2 ^ 63 - 1
       else if nanos ?t - nanos ?u < - (2 ^ 63) then - (2 ^ 63)
       else nanos ?t - nanos ?u)" if w: "wf_Time ?u \<and> wf_Time ?t"
  proof -
    from w have t: "wf_Time ?t" and u: "wf_Time ?u" by simp_all
    consider (hi) "2 ^ 63 - 1 < nanos ?t - nanos ?u" | (lo) "nanos ?t - nanos ?u < - (2 ^ 63)"
      | (mid) "wf_Duration (nanos ?t - nanos ?u)"
      unfolding wf_Duration_def by linarith
    then show ?thesis
    proof cases
      case hi
      then show ?thesis using Sub_saturates(1)[OF t u] by (simp add: maxDuration_def)
    next
      case lo
      then show ?thesis using Sub_saturates(2)[OF t u] by (simp add: minDuration_def)
    next
      case mid
      then show ?thesis using Sub_exact[OF t u] by (simp add: wf_Duration_def)
    qed
  qed
  show ?thesis
    using assms s by (cases err) (simp_all add: NewPendingStaker_def Let_def)
qed

text \<open>
  A staker whose \<open>PublicKey()\<close> fails, and the same staker without key and without error,
  staking for 150 seconds less one nanosecond.
\<close>

theorem NewPendingStaker_result_witness:
  "NewPendingStaker [1] \<lparr> pre_PublicKey = (None, False, Some ''no key''), pre_NodeID = [2],
      pre_SubnetID = [3], pre_Weight = 4, pre_StartTime = Time 100 5, pre_EndTime = Time 250 4,
      pre_PendingPriority = 2 \<rparr> = Inl ''no key'' \<and>
   wf_Time (Time 100 5) \<and> wf_Time (Time 250 4) \<and>
   NewPendingStaker [1] \<lparr> pre_PublicKey = (None, False, None :: string option), pre_NodeID = [2],
      pre_SubnetID = [3], pre_Weight = 4, pre_StartTime = Time 100 5, pre_EndTime = Time 250 4,
      pre_PendingPriority = 2 \<rparr> =
     Inr \<lparr> TxID = [1], NodeID = [2], PublicKey = None, SubnetID = [3], Weight = 4,
           StartTime = Time 100 5, StakingPeriod = 149999999999, EndTime = Time 250 4,
           PotentialReward = 0, NextTime = Time 100 5, Priority = 2 \<rparr>"
proof -
  have a: "NewPendingStaker [1] \<lparr> pre_PublicKey = (None, False, Some ''no key''), pre_NodeID = [2],
      pre_SubnetID = [3], pre_Weight = 4, pre_StartTime = Time 100 5, pre_EndTime = Time 250 4,
      pre_PendingPriority = 2 \<rparr> = Inl ''no key''"
    by code_simp
  have b: "NewPendingStaker [1] \<lparr> pre_PublicKey = (None, False, None :: string option), pre_NodeID = [2],
      pre_SubnetID = [3], pre_Weight = 4, pre_StartTime = Time 100 5, pre_EndTime = Time 250 4,
      pre_PendingPriority = 2 \<rparr> =
     Inr \<lparr> TxID = [1], NodeID = [2], PublicKey = None, SubnetID = [3], Weight = 4,
           StartTime = Time 100 5, StakingPeriod = 149999999999, EndTime = Time 250 4,
           PotentialReward = 0, NextTime = Time 100 5, Priority = 2 \<rparr>"
    by code_simp
  have w: "wf_Time (Time 100 5)" "wf_Time (Time 250 4)" by (simp_all add: wf_Time_def)
  show ?thesis
    using NewPendingStaker_result
      [of "\<lparr> pre_PublicKey = (None, False, Some ''no key''), pre_NodeID = [2],
        pre_SubnetID = [3], pre_Weight = 4, pre_StartTime = Time 100 5, pre_EndTime = Time 250 4,
        pre_PendingPriority = 2 \<rparr>" None False "Some ''no key''" "[1]"]
      NewPendingStaker_result
      [of "\<lparr> pre_PublicKey = (None, False, None :: string option), pre_NodeID = [2],
        pre_SubnetID = [3], pre_Weight = 4, pre_StartTime = Time 100 5, pre_EndTime = Time 250 4,
        pre_PendingPriority = 2 \<rparr>" None False None "[1]"]
    by (simp add: a b w)
qed

text \<open>
  C10, as claimed: the loop exits for every stop time when \<open>StakingPeriod\<close> is positive.
  With \<open>NextTime\<close> 10 seconds before the last second of the counter, a period of 100
  seconds, the stop time 500 nanoseconds into that last second and \<open>EndTime\<close> 999
  nanoseconds into it, \<open>Add\<close> saturates at the start of the last second: \<open>end\<close> stays
  there, before the stop time, and the loop never exits.
\<close>

theorem MarkStakerForRemovalInPlaceBeforeTime_terminates_counterexample:
  "0 < StakingPeriod (zeroStaker \<lparr> StakingPeriod := 100000000000,
        NextTime := Time (2 ^ 63 - 11) 0, EndTime := Time (2 ^ 63 - 1) 999 \<rparr>) \<and>
   wf_Time (Time (2 ^ 63 - 11) 0) \<and> wf_Time (Time (2 ^ 63 - 1) 999) \<and>
   wf_Time (Time (2 ^ 63 - 1) 500) \<and> wf_Duration 100000000000 \<and>
   MarkStakerForRemovalInPlaceBeforeTime
     (zeroStaker \<lparr> StakingPeriod := 100000000000,
        NextTime := Time (2 ^ 63 - 11) 0, EndTime := Time (2 ^ 63 - 1) 999 \<rparr>)
     (Time (2 ^ 63 - 1) 500) = None"
proof -
  let ?stop = "Time (2 ^ 63 - 1) 500"
  let ?I = "\<lambda>e. e = Time (2 ^ 63 - 11) 0 \<or> e = Time (2 ^ 63 - 1) 0"
  have "walk_end 100000000000 ?stop (Time (2 ^ 63 - 11) 0) = None"
  proof (rule walk_end_invariant[where I = ?I])
    show "?I (Time (2 ^ 63 - 11) 0)" by simp
    fix e assume "?I e"
    then show "Before e ?stop \<and> ?I (Add e 100000000000)"
      by (auto simp: Before_def Add_def quo_def rem_def addSec_def wrap64_def Let_def)
  qed
  then show ?thesis
    by (simp add: MarkStakerForRemovalInPlaceBeforeTime_def zeroStaker_def Before_def
        wf_Time_def wf_Duration_def)
qed

text \<open>
  C10, amended. \<open>MarkStakerForRemovalInPlaceBeforeTime\<close> returns for every stop time
  before the last second that a \<open>time.Time\<close> can hold (second counter below \<open>2^63 - 1\<close>)
  when \<open>StakingPeriod\<close> is positive. Positivity is what bounds the loop: with a period of
  zero, or a negative period and a stop time after the second \<open>-(2^63 - 1)\<close>, and a stop
  time after \<open>NextTime\<close> and before \<open>EndTime\<close>, the loop never exits.
\<close>

theorem MarkStakerForRemovalInPlaceBeforeTime_terminates:
  assumes "wf_Time (NextTime s)" and "wf_Time stopTime" and "wf_Duration (StakingPeriod s)"
  shows
    "(0 < StakingPeriod s \<and> sec stopTime < 2 ^ 63 - 1 \<longrightarrow>
        (\<exists>s'. MarkStakerForRemovalInPlaceBeforeTime s stopTime = Some s')) \<and>
     (StakingPeriod s \<le> 0 \<and> (StakingPeriod s = 0 \<or> - (2 ^ 63 - 1) < sec stopTime) \<and>
      Before (NextTime s) stopTime \<and> Before stopTime (EndTime s) \<longrightarrow>
        MarkStakerForRemovalInPlaceBeforeTime s stopTime = None)"
proof (intro conjI impI)
  show "\<exists>s'. MarkStakerForRemovalInPlaceBeforeTime s stopTime = Some s'"
    if pos: "0 < StakingPeriod s \<and> sec stopTime < 2 ^ 63 - 1"
  proof -
    from pos have "0 < StakingPeriod s" "sec stopTime < 2 ^ 63 - 1" by simp_all
    with assms have "\<exists>e'. walk_end (StakingPeriod s) stopTime (NextTime s) = Some e'"
      by (intro walk_end_terminates)
    then show ?thesis
      by (auto simp: MarkStakerForRemovalInPlaceBeforeTime_def)
  qed
  show "MarkStakerForRemovalInPlaceBeforeTime s stopTime = None"
    if np: "StakingPeriod s \<le> 0 \<and> (StakingPeriod s = 0 \<or> - (2 ^ 63 - 1) < sec stopTime) \<and>
      Before (NextTime s) stopTime \<and> Before stopTime (EndTime s)"
  proof -
    have "walk_end (StakingPeriod s) stopTime (NextTime s) = None"
      using assms np by (intro walk_end_diverges) simp_all
    then show ?thesis
      using np by (simp add: MarkStakerForRemovalInPlaceBeforeTime_def)
  qed
qed

text \<open>
  A period of one second: three steps from second 5 reach the stop time at second 8. A
  period of zero: no result.
\<close>

theorem MarkStakerForRemovalInPlaceBeforeTime_terminates_witness:
  "wf_Time (Time 5 0) \<and> wf_Time (Time 8 0) \<and> wf_Duration 1000000000 \<and> wf_Duration 0 \<and>
   0 < StakingPeriod (zeroStaker \<lparr> StakingPeriod := 1000000000, EndTime := Time 100 0,
         NextTime := Time 5 0 \<rparr>) \<and>
   sec (Time 8 0) < 2 ^ 63 - 1 \<and>
   MarkStakerForRemovalInPlaceBeforeTime
     (zeroStaker \<lparr> StakingPeriod := 1000000000, EndTime := Time 100 0, NextTime := Time 5 0 \<rparr>)
     (Time 8 0) =
     Some (zeroStaker \<lparr> StakingPeriod := 1000000000, EndTime := Time 8 0, NextTime := Time 5 0 \<rparr>) \<and>
   StakingPeriod (zeroStaker \<lparr> EndTime := Time 100 0, NextTime := Time 5 0 \<rparr>) \<le> 0 \<and>
   Before (Time 5 0) (Time 8 0) \<and> Before (Time 8 0) (Time 100 0) \<and>
   MarkStakerForRemovalInPlaceBeforeTime
     (zeroStaker \<lparr> EndTime := Time 100 0, NextTime := Time 5 0 \<rparr>) (Time 8 0) = None"
proof -
  let ?s = "zeroStaker \<lparr> StakingPeriod := 1000000000, EndTime := Time 100 0, NextTime := Time 5 0 \<rparr>"
  let ?z = "zeroStaker \<lparr> EndTime := Time 100 0, NextTime := Time 5 0 \<rparr>"
  have w: "wf_Time (Time 5 0)" "wf_Time (Time 8 0)" "wf_Duration 1000000000" "wf_Duration 0"
    by (simp_all add: wf_Time_def wf_Duration_def)
  have h: "Before (Time 5 0) (Time 8 0)" "Before (Time 8 0) (Time 100 0)"
    "sec (Time 8 0) < 2 ^ 63 - 1"
    by (simp_all add: Before_def)
  have z: "StakingPeriod ?z = 0" by (simp add: zeroStaker_def)
  have a: "MarkStakerForRemovalInPlaceBeforeTime ?s (Time 8 0) =
     Some (zeroStaker \<lparr> StakingPeriod := 1000000000, EndTime := Time 8 0, NextTime := Time 5 0 \<rparr>)"
    by (simp add: MarkStakerForRemovalInPlaceBeforeTime_def walk_end.simps zeroStaker_def
        Before_def Add_def quo_def rem_def addSec_def wrap64_def Let_def)
  from MarkStakerForRemovalInPlaceBeforeTime_terminates[of ?s "Time 8 0"] w h
  have "\<exists>s'. MarkStakerForRemovalInPlaceBeforeTime ?s (Time 8 0) = Some s'" by simp
  from MarkStakerForRemovalInPlaceBeforeTime_terminates[of ?z "Time 8 0"] w h z
  have b: "MarkStakerForRemovalInPlaceBeforeTime ?z (Time 8 0) = None" by simp
  from w h z a b show ?thesis by simp
qed

end
